theory Spec2Isabelle
  imports Complex_Main
begin

section \<open>The model router\<close>

text \<open>
  A shallow embedding of the model router (registry, telemetry store, scoring and
  selection). JavaScript numbers are idealised as real numbers: rounding is not modelled,
  and the two places where the source can divide by zero are written out in
  \<open>scoreModel\<close>. The process-wide telemetry array is passed explicitly.

  Field names follow the source. Where two interfaces of the source share a field name
  the later record carries a short prefix: \<open>tmodel\<close>, \<open>ttask\<close>, \<open>ttimestamp\<close> and
  \<open>tsuccess\<close> are the fields \<open>model\<close>, \<open>task\<close>, \<open>timestamp\<close> and \<open>success\<close> of
  \<open>CallTelemetry\<close>; \<open>statModel\<close>, \<open>statAvgLatencyMs\<close> and \<open>statMaxLatencyMs\<close> are the
  fields \<open>model\<close>, \<open>avgLatencyMs\<close> and \<open>maxLatencyMs\<close> of the object that
  \<open>getModelStats\<close> returns.
\<close>

subsection \<open>Data model\<close>

record RouterConfig =
  task :: string
  maxLatencyMs :: real
  priority :: string
  estimatedTokens :: "real option"

datatype CapabilityTier = Basic | Standard | Advanced | ReasoningTier

record TaskCapabilities =
  classification :: real
  summarization :: real
  reasoning :: real
  extraction :: real

record ModelMetadata =
  provider :: string
  model :: string
  fullName :: string
  baseCostPer1kTokens :: real
  baseCostPer1kOutputTokens :: real
  avgLatencyMs :: real
  capabilityTier :: CapabilityTier
  supportsStreaming :: bool
  maxTokens :: nat
  taskCapabilities :: TaskCapabilities

record CallTelemetry =
  tmodel :: string
  ttask :: string
  latencyMs :: real
  inputTokens :: real
  outputTokens :: real
  cost :: real
  ttimestamp :: real
  tsuccess :: bool

record ModelStats =
  statModel :: string
  callCount :: nat
  statAvgLatencyMs :: real
  minLatencyMs :: real
  statMaxLatencyMs :: real
  avgCost :: real
  totalCost :: real
  successRate :: real

definition MAX_TELEMETRY_ENTRIES :: nat where
  "MAX_TELEMETRY_ENTRIES = 1000"

definition MODEL_REGISTRY :: "ModelMetadata list" where
  "MODEL_REGISTRY =
    [ \<lparr> provider = ''openai'', model = ''gpt-5-mini'', fullName = ''openai/gpt-5-mini'',
        baseCostPer1kTokens = 0.15, baseCostPer1kOutputTokens = 0.60, avgLatencyMs = 500,
        capabilityTier = Standard, supportsStreaming = True, maxTokens = 128000,
        taskCapabilities = \<lparr> classification = 0.9, summarization = 0.85,
          reasoning = 0.6, extraction = 0.9 \<rparr> \<rparr>,
      \<lparr> provider = ''openai'', model = ''gpt-5'', fullName = ''openai/gpt-5'',
        baseCostPer1kTokens = 2.50, baseCostPer1kOutputTokens = 10.00, avgLatencyMs = 1500,
        capabilityTier = Advanced, supportsStreaming = True, maxTokens = 128000,
        taskCapabilities = \<lparr> classification = 0.95, summarization = 0.95,
          reasoning = 0.85, extraction = 0.95 \<rparr> \<rparr>,
      \<lparr> provider = ''openai'', model = ''gpt-5.1-thinking'',
        fullName = ''openai/gpt-5.1-thinking'',
        baseCostPer1kTokens = 3.00, baseCostPer1kOutputTokens = 12.00, avgLatencyMs = 5000,
        capabilityTier = ReasoningTier, supportsStreaming = False, maxTokens = 128000,
        taskCapabilities = \<lparr> classification = 0.9, summarization = 0.85,
          reasoning = 0.98, extraction = 0.9 \<rparr> \<rparr>,
      \<lparr> provider = ''openai'', model = ''gpt-4o-mini'', fullName = ''openai/gpt-4o-mini'',
        baseCostPer1kTokens = 0.15, baseCostPer1kOutputTokens = 0.60, avgLatencyMs = 400,
        capabilityTier = Basic, supportsStreaming = True, maxTokens = 128000,
        taskCapabilities = \<lparr> classification = 0.85, summarization = 0.8,
          reasoning = 0.5, extraction = 0.85 \<rparr> \<rparr> ]"

subsection \<open>Telemetry store\<close>

text \<open>\<open>recordTelemetry\<close>: push, then one \<open>shift\<close> when the array is longer than the bound.\<close>

definition recordTelemetry :: "CallTelemetry \<Rightarrow> CallTelemetry list \<Rightarrow> CallTelemetry list" where
  "recordTelemetry telemetry telemetryStore =
    (let pushed = telemetryStore @ [telemetry]
     in if length pushed > MAX_TELEMETRY_ENTRIES then tl pushed else pushed)"

text \<open>The store after a sequence of \<open>recordTelemetry\<close> calls, first call first.\<close>

definition recordAll :: "CallTelemetry list \<Rightarrow> CallTelemetry list \<Rightarrow> CallTelemetry list" where
  "recordAll entries telemetryStore = foldl (\<lambda>s t. recordTelemetry t s) telemetryStore entries"

text \<open>
  \<open>Array.prototype.slice(start)\<close> with one integer argument: a negative start counts
  from the end and is clamped at the front.
\<close>

definition slice_from :: "int \<Rightarrow> 'a list \<Rightarrow> 'a list" where
  "slice_from start xs =
    (if start < 0 then drop (nat (int (length xs) + start)) xs else drop (nat start) xs)"

definition getModelTelemetry :: "CallTelemetry list \<Rightarrow> string \<Rightarrow> int \<Rightarrow> CallTelemetry list" where
  "getModelTelemetry telemetryStore m limit =
    rev (slice_from (- limit) (filter (\<lambda>t. tmodel t = m) telemetryStore))"

definition getModelStats :: "CallTelemetry list \<Rightarrow> string \<Rightarrow> ModelStats option" where
  "getModelStats telemetryStore m =
    (let modelTelemetry = getModelTelemetry telemetryStore m 100
     in if length modelTelemetry = 0 then None
        else
          let latencies = map latencyMs modelTelemetry;
              costs = map cost modelTelemetry
          in Some \<lparr> statModel = m,
                    callCount = length modelTelemetry,
                    statAvgLatencyMs = foldl (+) 0 latencies / real (length latencies),
                    minLatencyMs = foldl min (hd latencies) (tl latencies),
                    statMaxLatencyMs = foldl max (hd latencies) (tl latencies),
                    avgCost = foldl (+) 0 costs / real (length costs),
                    totalCost = foldl (+) 0 costs,
                    successRate =
                      real (length (filter tsuccess modelTelemetry)) / real (length modelTelemetry) \<rparr>)"

definition getAllTelemetry :: "CallTelemetry list \<Rightarrow> int \<Rightarrow> CallTelemetry list" where
  "getAllTelemetry telemetryStore limit = rev (slice_from (- limit) telemetryStore)"

subsection \<open>Scoring and selection\<close>

definition estimateCost :: "ModelMetadata \<Rightarrow> real \<Rightarrow> real \<Rightarrow> real" where
  "estimateCost m inTokens outTokens =
    (let inputCost = (inTokens / 1000) * baseCostPer1kTokens m;
         outputCost = (outTokens / 1000) * baseCostPer1kOutputTokens m
     in inputCost + outputCost)"

definition getCurrentLatency :: "CallTelemetry list \<Rightarrow> ModelMetadata \<Rightarrow> real" where
  "getCurrentLatency telemetryStore m =
    (case getModelStats telemetryStore (fullName m) of
       Some stats \<Rightarrow> if callCount stats > 5 then statAvgLatencyMs stats else avgLatencyMs m
     | None \<Rightarrow> avgLatencyMs m)"

text \<open>\<open>model.taskCapabilities[task]\<close>, for the task names the schema admits.\<close>

definition taskCapability :: "TaskCapabilities \<Rightarrow> string \<Rightarrow> real option" where
  "taskCapability caps t =
    (if t = ''classification'' then Some (classification caps)
     else if t = ''summarization'' then Some (summarization caps)
     else if t = ''reasoning'' then Some (reasoning caps)
     else if t = ''extraction'' then Some (extraction caps)
     else None)"

text \<open>The weights \<open>(capability, latency, cost)\<close> of the three priorities.\<close>

definition weights :: "string \<Rightarrow> real \<times> real \<times> real" where
  "weights p =
    (if p = ''cost'' then (0.3, 0.2, 0.5)
     else if p = ''quality'' then (0.6, 0.2, 0.2)
     else (0.4, 0.3, 0.3))"

text \<open>
  \<open>scoreModel\<close>. The result is \<open>None\<close> where the score of the source is not a finite
  number (no exception is thrown there): the cost score \<open>1 / (1 + cost * 100)\<close> is
  \<open>Infinity\<close> when the divisor is zero; for \<open>maxLatencyMs = 0\<close> the quotient
  \<open>latency / 0\<close> is \<open>NaN\<close> for a latency of zero and \<open>-Infinity\<close> for a negative one,
  which makes the latency score \<open>NaN\<close> or \<open>Infinity\<close>, while for a positive latency it is
  \<open>Infinity\<close> and the latency score \<open>Math.max(0, -Infinity)\<close> is 0. A task outside the
  schema yields \<open>undefined\<close>. Everywhere else the result is the weighted sum of the source.
\<close>

definition scoreModel ::
    "CallTelemetry list \<Rightarrow> ModelMetadata \<Rightarrow> RouterConfig \<Rightarrow> real \<Rightarrow> real \<Rightarrow> real option" where
  "scoreModel telemetryStore m config estimatedInputTokens estimatedOutputTokens =
    (let latency = getCurrentLatency telemetryStore m;
         c = estimateCost m estimatedInputTokens estimatedOutputTokens
     in case taskCapability (taskCapabilities m) (task config) of
          None \<Rightarrow> None
        | Some capability \<Rightarrow>
            if (maxLatencyMs config = 0 \<and> latency \<le> 0) \<or> 1 + c * 100 = 0 then None
            else
              let capabilityScore = capability;
                  latencyScore =
                    (if maxLatencyMs config = 0 then 0
                     else max 0 (1 - latency / maxLatencyMs config));
                  costScore = 1 / (1 + c * 100)
              in case weights (priority config) of
                   (wCapability, wLatency, wCost) \<Rightarrow>
                     Some (capabilityScore * wCapability + latencyScore * wLatency
                           + costScore * wCost))"

text \<open>
  \<open>ZodError\<close> is what \<open>RouterConfigSchema.parse\<close> throws. \<open>EmptyRegistry\<close> is the
  \<open>TypeError\<close> of \<open>reduce\<close> on an empty array, which the registry never is.
\<close>

datatype RouterError =
    ZodError
  | EmptyRegistry
  | NonFiniteScore

datatype RouterWarning = NoModelMeetsLatency real string

text \<open>\<open>RouterConfigSchema.parse\<close>: the two enumerations and \<open>maxLatencyMs \<ge> 0\<close>.\<close>

definition RouterConfigSchema_parse :: "RouterConfig \<Rightarrow> RouterError + RouterConfig" where
  "RouterConfigSchema_parse config =
    (if task config \<in> set [''classification'', ''summarization'', ''reasoning'', ''extraction'']
        \<and> 0 \<le> maxLatencyMs config
        \<and> priority config \<in> set [''cost'', ''quality'', ''balanced'']
     then Inr config else Inl ZodError)"

text \<open>\<open>validatedConfig.estimatedTokens || 1000\<close>: an absent value and \<open>0\<close> are both falsy.\<close>

definition estimatedInput :: "RouterConfig \<Rightarrow> real" where
  "estimatedInput config =
    (case estimatedTokens config of
       None \<Rightarrow> 1000
     | Some n \<Rightarrow> if n = 0 then 1000 else n)"

definition estimatedOutput :: "RouterConfig \<Rightarrow> real" where
  "estimatedOutput config = real_of_int \<lfloor>estimatedInput config * 0.5\<rfloor>"

definition viableModels :: "CallTelemetry list \<Rightarrow> RouterConfig \<Rightarrow> ModelMetadata list" where
  "viableModels telemetryStore config =
    filter (\<lambda>m. getCurrentLatency telemetryStore m \<le> maxLatencyMs config) MODEL_REGISTRY"

text \<open>
  The reduction that picks the fastest model: \<open>reduce\<close> without an initial value starts
  from the first element and replaces it only on a strictly lower latency.
\<close>

definition fastestOf :: "CallTelemetry list \<Rightarrow> ModelMetadata list \<Rightarrow> ModelMetadata option" where
  "fastestOf telemetryStore ms =
    (case ms of
       [] \<Rightarrow> None
     | m # rest \<Rightarrow>
         Some (foldl (\<lambda>prev curr.
                 if getCurrentLatency telemetryStore curr < getCurrentLatency telemetryStore prev
                 then curr else prev) m rest))"

text \<open>
  \<open>selectModel\<close> returns the selected full name and the warnings it printed, or the
  error it threw. \<open>Array.prototype.sort\<close> is stable, so sorting by descending score is
  the stable insertion sort on the negated score. \<open>NonFiniteScore\<close> is not an exception of
  the source: it marks the inputs on which a score is not a finite number, where the
  order produced by the comparator \<open>b.score - a.score\<close> is outside this model.
\<close>

definition selectModel ::
    "CallTelemetry list \<Rightarrow> RouterConfig \<Rightarrow> RouterError + (string \<times> RouterWarning list)" where
  "selectModel telemetryStore config =
    (case RouterConfigSchema_parse config of
       Inl e \<Rightarrow> Inl e
     | Inr validatedConfig \<Rightarrow>
         let estimatedInputTokens = estimatedInput validatedConfig;
             estimatedOutputTokens = estimatedOutput validatedConfig;
             viable = viableModels telemetryStore validatedConfig
         in if length viable = 0 then
              (case fastestOf telemetryStore MODEL_REGISTRY of
                 None \<Rightarrow> Inl EmptyRegistry
               | Some fastestModel \<Rightarrow>
                   Inr (fullName fastestModel,
                        [NoModelMeetsLatency (maxLatencyMs validatedConfig) (fullName fastestModel)]))
            else
              let scoredModels =
                    map (\<lambda>m. (m, scoreModel telemetryStore m validatedConfig
                                   estimatedInputTokens estimatedOutputTokens)) viable
              in if \<exists>p \<in> set scoredModels. snd p = None then Inl NonFiniteScore
                 else
                   let sorted = sort_key (\<lambda>p. - the (snd p)) scoredModels
                   in Inr (fullName (fst (hd sorted)), []))"

subsection \<open>Observations and sample inputs of the router\<close>

text \<open>The value \<open>selectModel\<close> returns, without the warnings.\<close>

definition selectedName :: "CallTelemetry list \<Rightarrow> RouterConfig \<Rightarrow> RouterError + string" where
  "selectedName telemetryStore config = map_sum id fst (selectModel telemetryStore config)"

text \<open>The first configuration of \<open>runDemo\<close>, and inputs used to instantiate the theorems.\<close>

definition demoConfig1 :: RouterConfig where
  "demoConfig1 = \<lparr> task = ''classification'', maxLatencyMs = 2000, priority = ''cost'',
                    estimatedTokens = None \<rparr>"

definition sampleCall :: "string \<Rightarrow> real \<Rightarrow> nat \<Rightarrow> CallTelemetry" where
  "sampleCall m l i = \<lparr> tmodel = m, ttask = ''classification'', latencyMs = l, inputTokens = 1000,
       outputTokens = 500, cost = 0.45, ttimestamp = real i, tsuccess = True \<rparr>"

definition tightConfig :: RouterConfig where
  "tightConfig = \<lparr> task = ''extraction'', maxLatencyMs = 100, priority = ''balanced'',
                     estimatedTokens = None \<rparr>"

definition tiedTelemetry :: "CallTelemetry list" where
  "tiedTelemetry = map (sampleCall ''openai/gpt-5-mini'' 400) [0, 1, 2, 3, 4, 5]"

section \<open>The chunked extractor\<close>

text \<open>
  A shallow embedding of the large-document extractor. Strings are lists of characters
  and \<open>length\<close> stands for the string length of the source. The generation API, the
  clock and the file system are explicit: the API is a function that gives, for each
  call, the time the call takes and either an error message or a structured object; the
  world holds the clock, the documents, the checkpoint files and the list of events
  (API calls, sleeps, checkpoint writes) in the order they happen. Console output and the
  \<open>onProgress\<close> observer are left out; the exception that printing the progress bar can
  throw is kept.

  \<open>ckTotalChunks\<close>, \<open>ckCompletedChunks\<close> and \<open>ckChunkResults\<close> are the fields
  \<open>totalChunks\<close>, \<open>completedChunks\<close> and \<open>chunkResults\<close> of \<open>Checkpoint\<close>; the same
  names without prefix are the fields of \<open>ProgressTracker\<close>.
\<close>

subsection \<open>Configuration\<close>

definition DEFAULT_CHUNK_SIZE :: int where
  "DEFAULT_CHUNK_SIZE = 4000"

definition OVERLAP_SIZE :: int where
  "OVERLAP_SIZE = 200"

definition CHECKPOINT_DIR :: string where
  "CHECKPOINT_DIR = ''.checkpoints''"

definition MAX_RETRIES :: nat where
  "MAX_RETRIES = 3"

subsection \<open>Strings\<close>

text \<open>The characters of the class \<open>[.!?]\<close>.\<close>

definition isTerminator :: "char \<Rightarrow> bool" where
  "isTerminator c = (c = CHR ''.'' \<or> c = CHR ''!'' \<or> c = CHR ''?'')"

text \<open>
  White space as \<open>\s\<close> and \<open>trim\<close> see it, among the characters below 128: tab, line
  feed, vertical tab, form feed, carriage return and space.
\<close>

definition isSpace :: "char \<Rightarrow> bool" where
  "isSpace c = (c = CHR 0x09 \<or> c = CHR 0x0A \<or> c = CHR 0x0B \<or> c = CHR 0x0C \<or> c = CHR 0x0D
     \<or> c = CHR '' '')"

definition trim :: "string \<Rightarrow> string" where
  "trim s = rev (dropWhile isSpace (rev (dropWhile isSpace s)))"

text \<open>\<open>Array.prototype.join\<close>.\<close>

fun join :: "string \<Rightarrow> string list \<Rightarrow> string" where
  "join sep [] = []"
| "join sep [x] = x"
| "join sep (x # y # ys) = x @ sep @ join sep (y # ys)"

text \<open>
  \<open>s.split(/\s+/)\<close>: the pieces between the maximal runs of white space, an empty piece
  before a leading and after a trailing run. The flag says that the previous character
  was white space.
\<close>

fun splitSpaces :: "bool \<Rightarrow> string \<Rightarrow> string list" where
  "splitSpaces prevSpace [] = [[]]"
| "splitSpaces prevSpace (c # cs) =
    (if isSpace c then
       (if prevSpace then splitSpaces True cs else [] # splitSpaces True cs)
     else
       (case splitSpaces False cs of
          [] \<Rightarrow> [[c]]
        | w # ws \<Rightarrow> (c # w) # ws))"

definition split_whitespace :: "string \<Rightarrow> string list" where
  "split_whitespace s = splitSpaces False s"

text \<open>
  \<open>text.match(/[^.!?]+[.!?]+/g)\<close>: the successive matches, each a maximal non-empty run
  of characters other than terminators followed by a maximal non-empty run of
  terminators. The search skips terminators that no other character precedes and ends
  at a run that no terminator follows. The empty list stands for \<open>null\<close>.
\<close>

lemma dropWhile_shorter:
  "takeWhile P xs \<noteq> [] \<Longrightarrow> length (dropWhile P xs) < length xs"
  by (cases xs) (auto simp: le_imp_less_Suc length_dropWhile_le split: if_splits)

function matchSentences :: "string \<Rightarrow> string list" where
  "matchSentences text =
    (let start = dropWhile isTerminator text;
         body = takeWhile (\<lambda>c. \<not> isTerminator c) start;
         rest = dropWhile (\<lambda>c. \<not> isTerminator c) start;
         stops = takeWhile isTerminator rest
     in if body = [] \<or> stops = [] then []
        else (body @ stops) # matchSentences (dropWhile isTerminator rest))"
  by pat_completeness auto
termination
proof (relation "measure length")
  show "wf (measure length)" by simp
next
  fix doc start body rest stops :: string
  assume "start = dropWhile isTerminator doc"
    and "rest = dropWhile (\<lambda>c. \<not> isTerminator c) start"
    and "stops = takeWhile isTerminator rest"
    and "\<not> (body = [] \<or> stops = [])"
  then have "length (dropWhile isTerminator rest) < length rest"
    by (simp add: dropWhile_shorter)
  moreover have "length rest \<le> length start"
    using \<open>rest = _\<close> by (simp add: length_dropWhile_le)
  moreover have "length start \<le> length doc"
    using \<open>start = _\<close> by (simp add: length_dropWhile_le)
  ultimately show "(dropWhile isTerminator rest, doc) \<in> measure length"
    by simp
qed

declare matchSentences.simps [simp del]

subsection \<open>Chunking\<close>

text \<open>\<open>Math.ceil(text.length / 4)\<close>.\<close>

definition estimateTokens :: "string \<Rightarrow> int" where
  "estimateTokens text = (int (length text) + 3) div 4"

text \<open>
  The loop of \<open>chunkText\<close> over the sentences, with its three variables \<open>chunks\<close>,
  \<open>currentChunk\<close> and \<open>currentTokens\<close>; it returns the first two.
\<close>

fun chunkLoop ::
    "int \<Rightarrow> int \<Rightarrow> string list \<Rightarrow> string list \<Rightarrow> string \<Rightarrow> int \<Rightarrow> string list \<times> string" where
  "chunkLoop chunkSize overlap [] chunks currentChunk currentTokens = (chunks, currentChunk)"
| "chunkLoop chunkSize overlap (sentence # sentences) chunks currentChunk currentTokens =
    (let sentenceTokens = estimateTokens sentence
     in if currentTokens + sentenceTokens > chunkSize \<and> currentChunk \<noteq> [] then
          let words = split_whitespace currentChunk;
              overlapWords = slice_from (- (overlap div 4)) words;
              newChunk = join '' '' overlapWords @ '' '' @ sentence
          in chunkLoop chunkSize overlap sentences (chunks @ [trim currentChunk])
               newChunk (estimateTokens newChunk)
        else chunkLoop chunkSize overlap sentences chunks
               (currentChunk @ sentence) (currentTokens + sentenceTokens))"

text \<open>The sentence list of \<open>chunkText\<close>: \<open>text.match(...) || [text]\<close>.\<close>

definition sentencesOf :: "string \<Rightarrow> string list" where
  "sentencesOf text = (case matchSentences text of [] \<Rightarrow> [text] | m # ms \<Rightarrow> m # ms)"

definition chunkText :: "string \<Rightarrow> int \<Rightarrow> int \<Rightarrow> string list" where
  "chunkText text chunkSize overlap =
    (if estimateTokens text \<le> chunkSize then [text]
     else
       case chunkLoop chunkSize overlap (sentencesOf text) [] [] 0 of
         (chunks, currentChunk) \<Rightarrow>
           if trim currentChunk \<noteq> [] then chunks @ [trim currentChunk] else chunks)"

text \<open>
  The same loop with each chunk kept in two parts: the seed, which is the overlap text
  taken from the chunk before (empty for the first chunk), and the sentences appended
  after it. It is used to state what the chunks hold.
\<close>

fun chunkParts ::
    "int \<Rightarrow> int \<Rightarrow> string list \<Rightarrow> (string \<times> string list) list \<Rightarrow> string \<times> string list \<Rightarrow> int
      \<Rightarrow> (string \<times> string list) list \<times> (string \<times> string list)" where
  "chunkParts chunkSize overlap [] parts current currentTokens = (parts, current)"
| "chunkParts chunkSize overlap (sentence # sentences) parts (seed, body) currentTokens =
    (let sentenceTokens = estimateTokens sentence;
         currentChunk = seed @ concat body
     in if currentTokens + sentenceTokens > chunkSize \<and> currentChunk \<noteq> [] then
          let words = split_whitespace currentChunk;
              overlapWords = slice_from (- (overlap div 4)) words;
              newSeed = join '' '' overlapWords @ '' ''
          in chunkParts chunkSize overlap sentences (parts @ [(seed, body)])
               (newSeed, [sentence]) (estimateTokens (newSeed @ sentence))
        else chunkParts chunkSize overlap sentences parts
               (seed, body @ [sentence]) (currentTokens + sentenceTokens))"

definition partText :: "string \<times> string list \<Rightarrow> string" where
  "partText p = fst p @ concat (snd p)"

subsection \<open>Data model of the extractor\<close>

record Quote =
  quote :: string
  speaker :: "string option"

record Concepts =
  business :: "string list"
  technical :: "string list"

record ExtractionResult =
  keyTakeaway :: string
  companies :: "string list"
  concepts :: Concepts
  quotes :: "Quote list"
  summary :: string

record ChunkResult =
  chunkIndex :: nat
  result :: ExtractionResult
  success :: bool
  error :: "string option"
  processingTime :: nat

record ProgressTracker =
  totalChunks :: nat
  completedChunks :: nat
  failedChunks :: nat
  startTime :: nat
  chunkResults :: "ChunkResult list"

record Checkpoint =
  filePath :: string
  ckTotalChunks :: nat
  ckCompletedChunks :: "nat list"
  ckChunkResults :: "ChunkResult list"
  timestamp :: nat

subsection \<open>The environment\<close>

text \<open>
  One call of the generation API: the time it takes and what it yields. \<open>Inl\<close> carries
  the message of the error the call throws (a failed request, no JSON in the streamed
  text, a schema violation: the source treats them alike), \<open>Inr\<close> the validated object.
\<close>

record Attempt =
  duration :: nat
  outcome :: "string + ExtractionResult"

text \<open>
  The structured extraction, as a function of the arguments of \<open>processChunk\<close>:
  \<open>useStreaming\<close>, the chunk, its index, the number of chunks and \<open>retries\<close>. One run
  calls it at most once for each index and retry count, so a function of these describes
  any behaviour of the API during a run. The summarisation call of
  \<open>summarizeFailedChunk\<close> is a function of the chunk.
\<close>

type_synonym Generator = "bool \<Rightarrow> string \<Rightarrow> nat \<Rightarrow> nat \<Rightarrow> nat \<Rightarrow> Attempt"

type_synonym Summarizer = "string \<Rightarrow> nat \<times> (string + string)"

datatype Event =
    Generate nat nat
  | Sleep nat
  | Summarize string
  | SaveCheckpoint Checkpoint
  | ClearCheckpoint string

record World =
  now :: nat
  files :: "string \<rightharpoonup> string"
  checkpointFiles :: "string \<rightharpoonup> Checkpoint"
  events :: "Event list"

definition tick :: "nat \<Rightarrow> Event \<Rightarrow> World \<Rightarrow> World" where
  "tick d e w = w\<lparr> now := now w + d, events := events w @ [e] \<rparr>"

subsection \<open>Checkpoint files\<close>

text \<open>
  \<open>path.basename\<close> and \<open>path.extname\<close> on a POSIX path without trailing slashes: the
  base name is what follows the last slash, the extension starts at the last dot of the
  base name unless that dot is its first character or the base name is \<open>..\<close>.
\<close>

definition basename :: "string \<Rightarrow> string" where
  "basename p = rev (takeWhile (\<lambda>c. c \<noteq> CHR ''/'') (rev p))"

definition extname :: "string \<Rightarrow> string" where
  "extname p =
    (let b = basename p;
         ext = rev (takeWhile (\<lambda>c. c \<noteq> CHR ''.'') (rev b))
     in if CHR ''.'' \<in> set b \<and> length ext + 1 < length b \<and> b \<noteq> ''..''
        then CHR ''.'' # ext else [])"

definition getCheckpointPath :: "string \<Rightarrow> string" where
  "getCheckpointPath fp =
    (let b = basename fp;
         fileName = take (length b - length (extname fp)) b
     in CHECKPOINT_DIR @ ''/'' @ fileName @ ''.checkpoint.json'')"

text \<open>
  A checkpoint file holds the checkpoint that was written to it: \<open>JSON.stringify\<close>
  followed by \<open>JSON.parse\<close> is taken as the identity, and reads and writes succeed (the
  source logs a warning and goes on when they do not).
\<close>

definition loadCheckpoint :: "string \<Rightarrow> World \<Rightarrow> Checkpoint option" where
  "loadCheckpoint fp w = checkpointFiles w (getCheckpointPath fp)"

definition saveCheckpoint :: "string \<Rightarrow> ProgressTracker \<Rightarrow> World \<Rightarrow> World" where
  "saveCheckpoint fp progress w =
    (let checkpoint =
           \<lparr> filePath = fp,
             ckTotalChunks = totalChunks progress,
             ckCompletedChunks = map chunkIndex (filter success (chunkResults progress)),
             ckChunkResults = chunkResults progress,
             timestamp = now w \<rparr>
     in w\<lparr> checkpointFiles := (checkpointFiles w)(getCheckpointPath fp \<mapsto> checkpoint),
           events := events w @ [SaveCheckpoint checkpoint] \<rparr>)"

definition clearCheckpoint :: "string \<Rightarrow> World \<Rightarrow> World" where
  "clearCheckpoint fp w =
    (if getCheckpointPath fp \<in> dom (checkpointFiles w)
     then w\<lparr> checkpointFiles := (checkpointFiles w)(getCheckpointPath fp := None),
             events := events w @ [ClearCheckpoint (getCheckpointPath fp)] \<rparr>
     else w)"

subsection \<open>Processing one chunk\<close>

definition emptyExtraction :: "string \<Rightarrow> ExtractionResult" where
  "emptyExtraction message =
    \<lparr> keyTakeaway = [], companies = [],
      concepts = \<lparr> business = [], technical = [] \<rparr>,
      quotes = [],
      summary = ''[Extraction failed: '' @ message @ '']'' \<rparr>"

text \<open>
  \<open>processChunk\<close>: one call of the API; on an error a sleep of \<open>1000 * (retries + 1)\<close>
  milliseconds and the recursive call while \<open>retries < MAX_RETRIES\<close>, the failed result
  after that. \<open>processingTime\<close> is the time since the start of the last call.
\<close>

function processChunk ::
    "Generator \<Rightarrow> string \<Rightarrow> nat \<Rightarrow> nat \<Rightarrow> nat \<Rightarrow> bool \<Rightarrow> World \<Rightarrow> ChunkResult \<times> World" where
  "processChunk gen chunk idx nchunks retries streaming w =
    (let startTime = now w;
         attempt = gen streaming chunk idx nchunks retries;
         w1 = tick (duration attempt) (Generate idx retries) w
     in case outcome attempt of
          Inr structuredOutput \<Rightarrow>
            (\<lparr> chunkIndex = idx, result = structuredOutput, success = True, error = None,
               processingTime = now w1 - startTime \<rparr>, w1)
        | Inl message \<Rightarrow>
            if retries < MAX_RETRIES then
              processChunk gen chunk idx nchunks (retries + 1) streaming
                (tick (1000 * (retries + 1)) (Sleep (1000 * (retries + 1))) w1)
            else
              (\<lparr> chunkIndex = idx, result = emptyExtraction message, success = False,
                 error = Some message, processingTime = now w1 - startTime \<rparr>, w1))"
  by pat_completeness auto
termination
  by (relation "measure (\<lambda>(gen, chunk, idx, nchunks, retries, streaming, w). MAX_RETRIES - retries)")
    auto

declare processChunk.simps [simp del]

text \<open>
  \<open>summarizeFailedChunk\<close> never throws: an error of the call becomes the text of the
  summary.
\<close>

definition summarizeFailedChunk :: "Summarizer \<Rightarrow> string \<Rightarrow> World \<Rightarrow> string \<times> World" where
  "summarizeFailedChunk summ chunk w =
    (case summ chunk of
       (d, r) \<Rightarrow>
         ((case r of
             Inr text \<Rightarrow> text
           | Inl message \<Rightarrow> ''[Summary generation failed: '' @ message @ '']''),
          tick d (Summarize chunk) w))"

subsection \<open>Reducing the chunk results\<close>

text \<open>Adding the elements of a list to a \<open>Set\<close>, which keeps the order of first insertion.\<close>

definition addAll :: "string list \<Rightarrow> string list \<Rightarrow> string list" where
  "addAll acc xs = foldl (\<lambda>s c. if c \<in> set s then s else s @ [c]) acc xs"

definition reduceResults :: "ChunkResult list \<Rightarrow> ExtractionResult" where
  "reduceResults rs =
    (let successfulResults = filter success rs;
         allCompanies = foldl (\<lambda>s r. addAll s (companies (result r))) [] successfulResults;
         businessConcepts =
           foldl (\<lambda>s r. addAll s (business (concepts (result r)))) [] successfulResults;
         technicalConcepts =
           foldl (\<lambda>s r. addAll s (technical (concepts (result r)))) [] successfulResults;
         allQuotes = concat (map (\<lambda>r. quotes (result r)) successfulResults);
         summaries = filter (\<lambda>s. s \<noteq> []) (map (\<lambda>r. summary (result r)) successfulResults);
         combinedSummary = join '' '' summaries;
         takeaway =
           (if length summaries > 0 then take 250 (join '' '' (take 3 summaries))
            else ''Unable to extract key takeaway from document.'')
     in \<lparr> keyTakeaway = takeaway,
          companies = allCompanies,
          concepts = \<lparr> business = businessConcepts, technical = technicalConcepts \<rparr>,
          quotes = allQuotes,
          summary = combinedSummary \<rparr>)"

subsection \<open>The extraction\<close>

record Options =
  chunkSize :: "int option"
  resume :: "bool option"
  useStreaming :: "bool option"

datatype ExtractError =
    FileNotFound string
  | RangeError

text \<open>
  \<open>displayProgress\<close> prints a bar of \<open>barLength = 40\<close> cells, \<open>filled\<close> of them full, with
  \<open>filled = Math.round((completedChunks / totalChunks) * barLength)\<close>. Its output is left
  out, its exception is not: \<open>repeat(barLength - filled)\<close> throws a \<open>RangeError\<close> for a
  negative count, that is once \<open>filled\<close> exceeds 40, and \<open>repeat(filled)\<close> throws it for
  an infinite one (\<open>totalChunks = 0\<close> with a positive \<open>completedChunks\<close>). For zero of zero
  chunks the quotient is \<open>NaN\<close>, both counts are read as 0 and nothing is thrown.
  \<open>Math.round\<close> rounds half up; the quotient is taken over the reals. The result is the
  exception thrown, if any.
\<close>

definition displayProgress :: "ProgressTracker \<Rightarrow> ExtractError option" where
  "displayProgress progress =
    (if totalChunks progress = 0 then
       (if completedChunks progress = 0 then None else Some RangeError)
     else
       let barLength = 40 :: int;
           filled = \<lfloor>(real (completedChunks progress) / real (totalChunks progress))
                      * real_of_int barLength + 1 / 2\<rfloor>
       in if barLength - filled < 0 then Some RangeError else None)"

text \<open>
  One iteration of the loop over \<open>chunksToProcess\<close>. The chunk result is pushed first;
  the fallback summary is then written into the object that was pushed, which is the
  last element of \<open>progress.chunkResults\<close>.
\<close>

definition overwriteLastSummary :: "string \<Rightarrow> ChunkResult list \<Rightarrow> ChunkResult list" where
  "overwriteLastSummary s rs =
    (if rs = [] then rs
     else rs[length rs - 1 := (last rs)\<lparr> result := (result (last rs))\<lparr> summary := s \<rparr> \<rparr>])"

definition processStep ::
    "Generator \<Rightarrow> Summarizer \<Rightarrow> string \<Rightarrow> string list \<Rightarrow> bool \<Rightarrow> nat
      \<Rightarrow> ProgressTracker \<times> World \<Rightarrow> ProgressTracker \<times> World" where
  "processStep gen summ fp chunks streaming idx pw =
    (case pw of
       (progress, w) \<Rightarrow>
         (case processChunk gen (chunks ! idx) idx (length chunks) 0 streaming w of
            (chunkResult, w1) \<Rightarrow>
              let pushed = progress\<lparr> chunkResults := chunkResults progress @ [chunkResult] \<rparr>;
                  (progress2, w2) =
                    (if success chunkResult then
                       (pushed\<lparr> completedChunks := completedChunks pushed + 1 \<rparr>, w1)
                     else
                       (case summarizeFailedChunk summ (chunks ! idx) w1 of
                          (fallbackSummary, w2) \<Rightarrow>
                            (pushed\<lparr> failedChunks := failedChunks pushed + 1,
                                     chunkResults :=
                                       overwriteLastSummary fallbackSummary (chunkResults pushed) \<rparr>,
                             w2)))
              in (progress2, saveCheckpoint fp progress2 w2)))"

text \<open>
  The loop over \<open>chunksToProcess\<close>: each iteration starts with \<open>displayProgress\<close>, whose
  exception ends the run, and goes on with the step above.
\<close>

fun processAll ::
    "Generator \<Rightarrow> Summarizer \<Rightarrow> string \<Rightarrow> string list \<Rightarrow> bool \<Rightarrow> nat list
      \<Rightarrow> ProgressTracker \<times> World \<Rightarrow> (ExtractError + ProgressTracker) \<times> World" where
  "processAll gen summ fp chunks streaming [] pw = (Inr (fst pw), snd pw)"
| "processAll gen summ fp chunks streaming (idx # todo) pw =
    (case displayProgress (fst pw) of
       Some e \<Rightarrow> (Inl e, snd pw)
     | None \<Rightarrow>
         processAll gen summ fp chunks streaming todo
           (processStep gen summ fp chunks streaming idx pw))"

definition initialProgress :: "Checkpoint option \<Rightarrow> nat \<Rightarrow> World \<Rightarrow> ProgressTracker" where
  "initialProgress checkpoint n w =
    (case checkpoint of
       Some ck \<Rightarrow>
         \<lparr> totalChunks = n,
           completedChunks = length (ckCompletedChunks ck),
           failedChunks = length (filter (\<lambda>r. \<not> success r) (ckChunkResults ck)),
           startTime = timestamp ck,
           chunkResults = ckChunkResults ck \<rparr>
     | None \<Rightarrow>
         \<lparr> totalChunks = n, completedChunks = 0, failedChunks = 0, startTime = now w,
           chunkResults = [] \<rparr>)"

definition chunksToProcess :: "Checkpoint option \<Rightarrow> nat \<Rightarrow> nat list" where
  "chunksToProcess checkpoint n =
    (case checkpoint of
       Some ck \<Rightarrow> filter (\<lambda>idx. idx \<notin> set (ckCompletedChunks ck)) [0..<n]
     | None \<Rightarrow> [0..<n])"

text \<open>The options with the defaults of the destructuring.\<close>

definition chunkSizeOf :: "Options \<Rightarrow> int" where
  "chunkSizeOf options = (case chunkSize options of None \<Rightarrow> DEFAULT_CHUNK_SIZE | Some n \<Rightarrow> n)"

definition resumeOf :: "Options \<Rightarrow> bool" where
  "resumeOf options = (case resume options of None \<Rightarrow> True | Some b \<Rightarrow> b)"

definition useStreamingOf :: "Options \<Rightarrow> bool" where
  "useStreamingOf options = (case useStreaming options of None \<Rightarrow> False | Some b \<Rightarrow> b)"

text \<open>The checkpoint a run starts from: the one on disk when \<open>resume\<close> is set.\<close>

definition loadedCheckpoint :: "string \<Rightarrow> Options \<Rightarrow> World \<Rightarrow> Checkpoint option" where
  "loadedCheckpoint fp options w = (if resumeOf options then loadCheckpoint fp w else None)"

text \<open>
  \<open>extractLargeDocument\<close> returns the final result, or the error it throws, and the
  world it leaves. After the loop \<open>displayProgress\<close> is called once more; the checkpoint
  is cleared only when nothing was thrown.
\<close>

definition extractLargeDocument ::
    "Generator \<Rightarrow> Summarizer \<Rightarrow> string \<Rightarrow> Options \<Rightarrow> World
      \<Rightarrow> (ExtractError + ExtractionResult) \<times> World" where
  "extractLargeDocument gen summ fp options w =
    (case files w fp of
       None \<Rightarrow> (Inl (FileNotFound fp), w)
     | Some document \<Rightarrow>
         let checkpoint = loadedCheckpoint fp options w;
             chunks = chunkText document (chunkSizeOf options) OVERLAP_SIZE;
             progress = initialProgress checkpoint (length chunks) w;
             todo = chunksToProcess checkpoint (length chunks)
         in case processAll gen summ fp chunks (useStreamingOf options) todo (progress, w) of
              (Inl e, w') \<Rightarrow> (Inl e, w')
            | (Inr progress', w') \<Rightarrow>
                (case displayProgress progress' of
                   Some e \<Rightarrow> (Inl e, w')
                 | None \<Rightarrow>
                     (Inr (reduceResults (chunkResults progress')), clearCheckpoint fp w')))"

subsection \<open>Observations of a run\<close>

text \<open>The checkpoints written, the chunk indices whose processing was started, and the
  sleeps, each in the order of the events.\<close>

fun savedCheckpoints :: "Event list \<Rightarrow> Checkpoint list" where
  "savedCheckpoints [] = []"
| "savedCheckpoints (SaveCheckpoint ck # es) = ck # savedCheckpoints es"
| "savedCheckpoints (e # es) = savedCheckpoints es"

fun startedChunks :: "Event list \<Rightarrow> nat list" where
  "startedChunks [] = []"
| "startedChunks (Generate idx retries # es) =
    (if retries = 0 then idx # startedChunks es else startedChunks es)"
| "startedChunks (e # es) = startedChunks es"

fun generatedChunks :: "Event list \<Rightarrow> nat list" where
  "generatedChunks [] = []"
| "generatedChunks (Generate idx retries # es) = idx # generatedChunks es"
| "generatedChunks (e # es) = generatedChunks es"

text \<open>
  The events of one \<open>processChunk\<close> started with \<open>retries = r\<close> whose first \<open>n\<close> calls
  fail: each failed call is followed by its sleep, the last call by nothing.
\<close>

definition attemptEvents :: "nat \<Rightarrow> nat \<Rightarrow> nat \<Rightarrow> Event list" where
  "attemptEvents idx r n =
    concat (map (\<lambda>k. [Generate idx k, Sleep (1000 * (k + 1))]) [r..<r + n]) @ [Generate idx (r + n)]"

text \<open>The events that a run adds to those of the world it starts from.\<close>

definition eventsSince :: "World \<Rightarrow> World \<Rightarrow> Event list" where
  "eventsSince w w' = drop (length (events w)) (events w')"

text \<open>
  What \<open>saveCheckpoint\<close> writes for a progress tracker with the given chunk count and
  results, and the invariant of a checkpoint that the data model states: the completed indices lie
  below the chunk count, and they are the indices of the stored results that succeeded.
\<close>

definition stepCheckpoint :: "Checkpoint \<Rightarrow> nat \<Rightarrow> ChunkResult list \<Rightarrow> bool" where
  "stepCheckpoint ck n rs =
    (ckTotalChunks ck = n \<and> ckChunkResults ck = rs
     \<and> ckCompletedChunks ck = map chunkIndex (filter success rs))"

definition checkpointInvariant :: "Checkpoint \<Rightarrow> bool" where
  "checkpointInvariant ck =
    (set (ckCompletedChunks ck) \<subseteq> {..<ckTotalChunks ck}
     \<and> set (ckCompletedChunks ck)
         = chunkIndex ` {r \<in> set (ckChunkResults ck). success r})"

text \<open>
  The chunks of the document of a run, and the condition that the checkpoint the run
  starts from fits them: every stored result that succeeded has an index below the
  number of chunks.
\<close>

definition chunksOf :: "string \<Rightarrow> Options \<Rightarrow> World \<Rightarrow> string list" where
  "chunksOf fp options w =
    (case files w fp of
       None \<Rightarrow> []
     | Some document \<Rightarrow> chunkText document (chunkSizeOf options) OVERLAP_SIZE)"

definition checkpointFits :: "string \<Rightarrow> Options \<Rightarrow> World \<Rightarrow> bool" where
  "checkpointFits fp options w =
    (case loadedCheckpoint fp options w of
       None \<Rightarrow> True
     | Some ck \<Rightarrow>
         \<forall>r \<in> set (ckChunkResults ck). success r \<longrightarrow> chunkIndex r < length (chunksOf fp options w))"

text \<open>
  Two progress trackers are alike when they agree on what the rest of a run reads from
  them besides the failed results: the successful results and the two counts of the
  progress bar.
\<close>

definition alike :: "ProgressTracker \<Rightarrow> ProgressTracker \<Rightarrow> bool" where
  "alike p q =
    (filter success (chunkResults p) = filter success (chunkResults q)
     \<and> completedChunks p = completedChunks q \<and> totalChunks p = totalChunks q)"

subsection \<open>Sample inputs of the extractor\<close>

text \<open>
  A five-sentence document, generators (one that always fails, one that fails on chunk 0
  only, one that always succeeds, one whose first two calls for a chunk fail and whose
  third succeeds, one whose result names the chunk), two summarisers, and worlds with and
  without a checkpoint file, used to instantiate the theorems. \<open>staleCheckpoint\<close> is what
  the checkpoint file holds when a run with \<open>chunkSize = 1\<close> (five chunks) whose chunk 0
  failed is interrupted after chunk 1.
\<close>

definition sampleDocument :: string where
  "sampleDocument = ''Aa. Bb. Cc. Dd. Ee.''"

definition sampleExtraction :: "nat \<Rightarrow> ExtractionResult" where
  "sampleExtraction i =
    \<lparr> keyTakeaway = ''takeaway'', companies = [''Acme''],
      concepts = \<lparr> business = [''pricing''], technical = [''cache''] \<rparr>,
      quotes = [\<lparr> quote = ''ship it'', speaker = None \<rparr>],
      summary = (if i = 0 then ''zero'' else ''more'') \<rparr>"

definition failingGen :: Generator where
  "failingGen streaming chunk idx n retries = \<lparr> duration = 10, outcome = Inl ''timeout'' \<rparr>"

definition flakyGen :: Generator where
  "flakyGen streaming chunk idx n retries =
    \<lparr> duration = 10,
      outcome = (if idx = 0 then Inl ''timeout'' else Inr (sampleExtraction idx)) \<rparr>"

definition sampleSummarizer :: Summarizer where
  "sampleSummarizer chunk = (5, Inr ''fallback summary'')"

definition brokenSummarizer :: Summarizer where
  "brokenSummarizer chunk = (7, Inl ''down'')"

definition world0 :: World where
  "world0 = \<lparr> now = 0, files = [''essay.txt'' \<mapsto> sampleDocument],
              checkpointFiles = Map.empty, events = [] \<rparr>"

definition smallChunks :: Options where
  "smallChunks = \<lparr> chunkSize = Some 1, resume = None, useStreaming = None \<rparr>"

definition defaultOptions :: Options where
  "defaultOptions = \<lparr> chunkSize = None, resume = None, useStreaming = None \<rparr>"

definition steadyGen :: Generator where
  "steadyGen streaming chunk idx n retries =
    \<lparr> duration = 10, outcome = Inr (sampleExtraction idx) \<rparr>"

definition failed0 :: ChunkResult where
  "failed0 = \<lparr> chunkIndex = 0,
      result = \<lparr> keyTakeaway = [], companies = [],
                 concepts = \<lparr> business = [], technical = [] \<rparr>, quotes = [],
                 summary = ''fallback summary'' \<rparr>,
      success = False, error = Some ''timeout'', processingTime = 10 \<rparr>"

definition succeeded :: "nat \<Rightarrow> ChunkResult" where
  "succeeded i = \<lparr> chunkIndex = i, result = sampleExtraction i, success = True, error = None,
      processingTime = 10 \<rparr>"

definition staleCheckpoint :: Checkpoint where
  "staleCheckpoint = \<lparr> filePath = ''essay.txt'', ckTotalChunks = 5,
      ckCompletedChunks = [1],
      ckChunkResults = [failed0, succeeded 1],
      timestamp = 6055 \<rparr>"

definition staleWorld :: World where
  "staleWorld = \<lparr> now = 0, files = [''essay.txt'' \<mapsto> sampleDocument],
      checkpointFiles = [''.checkpoints/essay.checkpoint.json'' \<mapsto> staleCheckpoint],
      events = [] \<rparr>"

definition recoveringGen :: Generator where
  "recoveringGen streaming chunk idx n retries =
    \<lparr> duration = 10 * (retries + 1),
      outcome = (if retries < 2 then Inl ''timeout'' else Inr (sampleExtraction idx)) \<rparr>"

definition namedExtraction :: "nat \<Rightarrow> ExtractionResult" where
  "namedExtraction i =
    \<lparr> keyTakeaway = ''takeaway'',
      companies = [''Acme'', [''Bolt'', ''Cato'', ''Dyne'', ''Echo'', ''Fern''] ! i],
      concepts = \<lparr> business = [''pricing''], technical = [''cache''] \<rparr>,
      quotes = [\<lparr> quote = [''q0'', ''q1'', ''q2'', ''q3'', ''q4''] ! i, speaker = None \<rparr>],
      summary = [''zero'', ''one'', ''two'', ''three'', ''four''] ! i \<rparr>"

definition namedGen :: Generator where
  "namedGen streaming chunk idx n retries =
    \<lparr> duration = 10, outcome = Inr (namedExtraction idx) \<rparr>"

definition named :: "nat \<Rightarrow> ChunkResult" where
  "named i = \<lparr> chunkIndex = i, result = namedExtraction i, success = True, error = None,
      processingTime = 10 \<rparr>"

definition resumeCheckpoint :: Checkpoint where
  "resumeCheckpoint = \<lparr> filePath = ''essay.txt'', ckTotalChunks = 5,
      ckCompletedChunks = [0, 1, 2],
      ckChunkResults = [named 0, named 1, named 2],
      timestamp = 30 \<rparr>"

definition duplicateWorld :: World where
  "duplicateWorld = \<lparr> now = 0, files = [''essay.txt'' \<mapsto> sampleDocument],
      checkpointFiles = [''.checkpoints/essay.checkpoint.json''
        \<mapsto> resumeCheckpoint\<lparr> ckCompletedChunks := [0, 1, 2, 0, 1, 2] \<rparr>],
      events = [] \<rparr>"

definition resumeWorld :: World where
  "resumeWorld = \<lparr> now = 0, files = [''essay.txt'' \<mapsto> sampleDocument],
      checkpointFiles = [''.checkpoints/essay.checkpoint.json'' \<mapsto> resumeCheckpoint],
      events = [] \<rparr>"


section \<open>Properties of the router\<close>

subsection \<open>Auxiliary facts\<close>

lemma foldl_pick_first_min:
  fixes f :: "'a \<Rightarrow> real"
  shows "\<exists>i < length (x # xs).
           foldl (\<lambda>prev curr. if f curr < f prev then curr else prev) x xs = (x # xs) ! i
         \<and> (\<forall>j < length (x # xs). f ((x # xs) ! i) \<le> f ((x # xs) ! j))
         \<and> (\<forall>j < i. f ((x # xs) ! i) < f ((x # xs) ! j))"
proof (induction xs rule: rev_induct)
  case Nil
  then show ?case by simp
next
  case (snoc y ys)
  let ?pick = "\<lambda>prev curr. if f curr < f prev then curr else prev"
  define zs where "zs = x # ys"
  from snoc obtain i where i: "i < length zs" "foldl ?pick x ys = zs ! i"
    and le: "\<forall>j < length zs. f (zs ! i) \<le> f (zs ! j)"
    and lt: "\<forall>j < i. f (zs ! i) < f (zs ! j)"
    unfolding zs_def by blast
  have app: "x # (ys @ [y]) = zs @ [y]" by (simp add: zs_def)
  have step: "foldl ?pick x (ys @ [y]) = ?pick (zs ! i) y"
    using i(2) by simp
  show ?case
  proof (cases "f y < f (zs ! i)")
    case True
    have "foldl ?pick x (ys @ [y]) = (zs @ [y]) ! length zs"
      using True step by simp
    moreover have "\<forall>j < length (zs @ [y]). f ((zs @ [y]) ! length zs) \<le> f ((zs @ [y]) ! j)"
      using True le by (auto simp: nth_append less_Suc_eq)
    moreover have "\<forall>j < length zs. f ((zs @ [y]) ! length zs) < f ((zs @ [y]) ! j)"
      using True le by (auto simp: nth_append)
    ultimately show ?thesis
      unfolding app by (intro exI[of _ "length zs"]) simp
  next
    case False
    have "foldl ?pick x (ys @ [y]) = (zs @ [y]) ! i"
      using False step i(1) by (simp add: nth_append)
    moreover have "\<forall>j < length (zs @ [y]). f ((zs @ [y]) ! i) \<le> f ((zs @ [y]) ! j)"
      using False le i(1) by (auto simp: nth_append less_Suc_eq)
    moreover have "\<forall>j < i. f ((zs @ [y]) ! i) < f ((zs @ [y]) ! j)"
      using lt i(1) by (auto simp: nth_append)
    ultimately show ?thesis
      unfolding app using i(1) by (intro exI[of _ i]) simp
  qed
qed

lemma recordTelemetry_short:
  "length s < MAX_TELEMETRY_ENTRIES \<Longrightarrow> recordTelemetry e s = s @ [e]"
  by (simp add: recordTelemetry_def)

lemma recordTelemetry_full:
  "length s = MAX_TELEMETRY_ENTRIES \<Longrightarrow> recordTelemetry e s = tl s @ [e]"
  by (cases s) (simp_all add: recordTelemetry_def MAX_TELEMETRY_ENTRIES_def)

lemma recordAll_snoc: "recordAll (es @ [e]) s = recordTelemetry e (recordAll es s)"
  by (simp add: recordAll_def)

lemma recordAll_drop:
  "recordAll entries [] = drop (length entries - MAX_TELEMETRY_ENTRIES) entries"
proof (induction entries rule: rev_induct)
  case Nil
  then show ?case by (simp add: recordAll_def)
next
  case (snoc e es)
  let ?d = "drop (length es - MAX_TELEMETRY_ENTRIES) es"
  have eq: "recordAll (es @ [e]) [] = recordTelemetry e ?d"
    by (simp only: recordAll_snoc snoc)
  show ?case
  proof (cases "length es < MAX_TELEMETRY_ENTRIES")
    case True
    then show ?thesis
      unfolding eq by (simp add: recordTelemetry_short)
  next
    case False
    then have len: "length ?d = MAX_TELEMETRY_ENTRIES" by simp
    have "recordTelemetry e ?d = tl ?d @ [e]"
      by (rule recordTelemetry_full [OF len])
    also have "tl ?d = drop (Suc (length es - MAX_TELEMETRY_ENTRIES)) es"
      by (simp add: tl_drop drop_Suc)
    also have "Suc (length es - MAX_TELEMETRY_ENTRIES) = length (es @ [e]) - MAX_TELEMETRY_ENTRIES"
      using False by (simp add: MAX_TELEMETRY_ENTRIES_def)
    also have "drop (length (es @ [e]) - MAX_TELEMETRY_ENTRIES) es @ [e]
        = drop (length (es @ [e]) - MAX_TELEMETRY_ENTRIES) (es @ [e])"
      using False by (simp add: MAX_TELEMETRY_ENTRIES_def)
    finally show ?thesis
      unfolding eq .
  qed
qed

lemmas router_defs =
  selectModel_def RouterConfigSchema_parse_def estimatedInput_def estimatedOutput_def
  viableModels_def MODEL_REGISTRY_def getCurrentLatency_def getModelStats_def
  getModelTelemetry_def slice_from_def scoreModel_def estimateCost_def taskCapability_def
  weights_def fastestOf_def

subsection \<open>Selection on the demo configuration\<close>

text \<open>
  Claim C1, as stated: for \<open>{task: classification, maxLatencyMs: 2000, priority: cost}\<close>
  and empty telemetry \<open>selectModel\<close> returns the basic-tier model
  \<open>openai/gpt-4o-mini\<close>. It does not.
\<close>

theorem selectModel_demo_not_basic_tier: "selectedName [] demoConfig1 \<noteq> Inr ''openai/gpt-4o-mini''"
  by (simp add: selectedName_def demoConfig1_def router_defs)

text \<open>
  Claim C1, amended: on that configuration with empty telemetry \<open>selectModel\<close> returns
  \<open>openai/gpt-5-mini\<close>, the standard-tier model, without a warning. The viable models
  are \<open>gpt-5-mini\<close>, \<open>gpt-5\<close> and \<open>gpt-4o-mini\<close>; \<open>gpt-5-mini\<close> and the basic-tier
  \<open>gpt-4o-mini\<close> share the lowest estimated cost \<open>0.45\<close>, and the weighted score of
  \<open>gpt-5-mini\<close> (\<open>991/2300\<close>, about \<open>0.4309\<close>) is above that of \<open>gpt-4o-mini\<close>
  (\<open>1959/4600\<close>, about \<open>0.4259\<close>), its higher capability outweighing its higher latency.
  The margin is far above double-precision rounding.
\<close>

theorem selectModel_demo_selects_gpt5_mini:
  "selectModel [] demoConfig1 = Inr (''openai/gpt-5-mini'', [])
   \<and> map (\<lambda>m. (fullName m, capabilityTier m, estimateCost m 1000 500)) (viableModels [] demoConfig1)
       = [(''openai/gpt-5-mini'', Standard, 0.45), (''openai/gpt-5'', Advanced, 7.5),
          (''openai/gpt-4o-mini'', Basic, 0.45)]
   \<and> map (\<lambda>m. scoreModel [] m demoConfig1 1000 500) (viableModels [] demoConfig1)
       = [Some (991 / 2300), Some (50417 / 150200), Some (1959 / 4600)]"
  by (simp add: demoConfig1_def router_defs)

subsection \<open>The telemetry bound\<close>

text \<open>
  Claim C3: starting from the empty store, after every call of \<open>recordTelemetry\<close> the
  log holds at most 1000 entries; after 1001 calls the log is the sequence of the last
  1000 entries in arrival order, the first inserted entry evicted (so it is absent,
  unless the same value was recorded again).
\<close>

theorem telemetry_bounded_fifo:
  "(\<forall>k. length (recordAll (take k entries) []) \<le> 1000)
   \<and> (length entries = 1001 \<longrightarrow>
        recordAll entries [] = tl entries
        \<and> (distinct entries \<longrightarrow> hd entries \<notin> set (recordAll entries [])))"
proof -
  have "\<forall>k. length (recordAll (take k entries) []) \<le> 1000"
    by (auto simp add: recordAll_drop MAX_TELEMETRY_ENTRIES_def)
  moreover have "recordAll entries [] = tl entries" if "length entries = 1001"
    using that by (simp add: recordAll_drop MAX_TELEMETRY_ENTRIES_def drop_Suc)
  moreover have "hd entries \<notin> set (tl entries)" if "length entries = 1001" "distinct entries"
    using that by (cases entries) auto
  ultimately show ?thesis by simp
qed

theorem telemetry_bounded_fifo_witness:
  "length (map (sampleCall ''openai/gpt-5'' 1500) [0..<1001]) = 1001
   \<and> distinct (map (sampleCall ''openai/gpt-5'' 1500) [0..<1001])
   \<and> length (recordAll (map (sampleCall ''openai/gpt-5'' 1500) [0..<1001]) []) \<le> 1000
   \<and> recordAll (map (sampleCall ''openai/gpt-5'' 1500) [0..<1001]) []
       = map (sampleCall ''openai/gpt-5'' 1500) [1..<1001]
   \<and> sampleCall ''openai/gpt-5'' 1500 0
       \<notin> set (recordAll (map (sampleCall ''openai/gpt-5'' 1500) [0..<1001]) [])"
proof -
  define es where "es = map (sampleCall ''openai/gpt-5'' 1500) [0..<1001]"
  have len: "length es = 1001"
    unfolding es_def by (simp only: length_map length_upt)
  have inj: "inj_on (sampleCall ''openai/gpt-5'' 1500) (set [0..<1001])"
    by (rule inj_onI) (simp add: sampleCall_def)
  have dist: "distinct es"
    unfolding es_def by (simp only: distinct_map distinct_upt inj simp_thms)
  have split: "[0..<1001] = 0 # [1..<1001]"
    by (subst upt_conv_Cons) simp_all
  have hd0: "hd es = sampleCall ''openai/gpt-5'' 1500 0"
    unfolding es_def by (simp only: split list.map list.sel)
  have tl1: "tl es = map (sampleCall ''openai/gpt-5'' 1500) [1..<1001]"
    unfolding es_def by (simp only: split list.map list.sel)
  have all: "\<forall>k. length (recordAll (take k es) []) \<le> 1000"
    using telemetry_bounded_fifo [of es] by blast
  have "length (recordAll (take 1001 es) []) \<le> 1000" using all by blast
  then have bound: "length (recordAll es []) \<le> 1000" using len by simp
  from telemetry_bounded_fifo [of es] len dist
  have "recordAll es [] = tl es" "hd es \<notin> set (recordAll es [])" by blast+
  with len dist bound hd0 tl1 show ?thesis
    unfolding es_def by (simp only: simp_thms)
qed

subsection \<open>The fallback on an empty viable set\<close>



text \<open>
  Claim C9: in that fallback the model returned is the earliest registry entry of
  minimal effective latency: every entry has a latency at least as high, and every
  earlier entry a strictly higher one.
\<close>

theorem selectModel_fallback_tie_earliest:
  assumes "RouterConfigSchema_parse config = Inr config"
    and "viableModels telemetryStore config = []"
  shows "\<exists>i < length MODEL_REGISTRY.
           selectedName telemetryStore config = Inr (fullName (MODEL_REGISTRY ! i))
         \<and> (\<forall>j < length MODEL_REGISTRY.
               getCurrentLatency telemetryStore (MODEL_REGISTRY ! i)
                 \<le> getCurrentLatency telemetryStore (MODEL_REGISTRY ! j))
         \<and> (\<forall>j < i.
               getCurrentLatency telemetryStore (MODEL_REGISTRY ! i)
                 < getCurrentLatency telemetryStore (MODEL_REGISTRY ! j))"
proof -
  obtain x xs where reg: "MODEL_REGISTRY = x # xs"
    by (simp add: MODEL_REGISTRY_def)
  let ?f = "getCurrentLatency telemetryStore"
  from foldl_pick_first_min [of x xs ?f] obtain i where
    i: "i < length (x # xs)"
    and r: "foldl (\<lambda>prev curr. if ?f curr < ?f prev then curr else prev) x xs = (x # xs) ! i"
    and le: "\<forall>j < length (x # xs). ?f ((x # xs) ! i) \<le> ?f ((x # xs) ! j)"
    and lt: "\<forall>j < i. ?f ((x # xs) ! i) < ?f ((x # xs) ! j)"
    by blast
  have fast: "fastestOf telemetryStore MODEL_REGISTRY = Some (MODEL_REGISTRY ! i)"
    using r by (simp add: fastestOf_def reg)
  have sel: "selectedName telemetryStore config = Inr (fullName (MODEL_REGISTRY ! i))"
    using assms fast by (simp add: selectedName_def selectModel_def)
  from i le lt sel show ?thesis
    unfolding reg by blast
qed

theorem selectModel_fallback_tie_earliest_witness:
  "RouterConfigSchema_parse tightConfig = Inr tightConfig
   \<and> viableModels tiedTelemetry tightConfig = []
   \<and> getCurrentLatency tiedTelemetry (MODEL_REGISTRY ! 0) = 400
   \<and> getCurrentLatency tiedTelemetry (MODEL_REGISTRY ! 3) = 400
   \<and> selectedName tiedTelemetry tightConfig = Inr (fullName (MODEL_REGISTRY ! 0))
   \<and> (\<exists>i < length MODEL_REGISTRY.
         selectedName tiedTelemetry tightConfig = Inr (fullName (MODEL_REGISTRY ! i))
         \<and> (\<forall>j < length MODEL_REGISTRY.
               getCurrentLatency tiedTelemetry (MODEL_REGISTRY ! i)
                 \<le> getCurrentLatency tiedTelemetry (MODEL_REGISTRY ! j))
         \<and> (\<forall>j < i.
               getCurrentLatency tiedTelemetry (MODEL_REGISTRY ! i)
                 < getCurrentLatency tiedTelemetry (MODEL_REGISTRY ! j)))"
proof -
  have p: "RouterConfigSchema_parse tightConfig = Inr tightConfig"
    by (simp add: tightConfig_def RouterConfigSchema_parse_def)
  have v: "viableModels tiedTelemetry tightConfig = []"
    by (simp add: tightConfig_def tiedTelemetry_def sampleCall_def router_defs)
  have l0: "getCurrentLatency tiedTelemetry (MODEL_REGISTRY ! 0) = 400"
    by (simp add: tiedTelemetry_def sampleCall_def router_defs)
  have l3: "getCurrentLatency tiedTelemetry (MODEL_REGISTRY ! 3) = 400"
    by (simp add: tiedTelemetry_def sampleCall_def router_defs)
  have s: "selectedName tiedTelemetry tightConfig = Inr (fullName (MODEL_REGISTRY ! 0))"
    by (simp add: selectedName_def tightConfig_def tiedTelemetry_def sampleCall_def router_defs)
  from selectModel_fallback_tie_earliest [OF p v] p v l0 l3 s show ?thesis by (simp only: simp_thms)
qed

subsection \<open>The default of the estimated token count\<close>

text \<open>
  Claim C10: \<open>estimatedTokens = 0\<close> behaves as an omitted \<open>estimatedTokens\<close>: the
  estimated input is 1000 tokens, the estimated output 500, every score is the score
  computed with the defaults, and \<open>selectModel\<close> returns the same result.
\<close>

theorem selectModel_zero_tokens_default:
  "selectModel telemetryStore (config\<lparr>estimatedTokens := Some 0\<rparr>)
     = selectModel telemetryStore (config\<lparr>estimatedTokens := None\<rparr>)
   \<and> estimatedInput (config\<lparr>estimatedTokens := Some 0\<rparr>) = 1000
   \<and> estimatedOutput (config\<lparr>estimatedTokens := Some 0\<rparr>) = 500
   \<and> scoreModel telemetryStore m (config\<lparr>estimatedTokens := Some 0\<rparr>)
        (estimatedInput (config\<lparr>estimatedTokens := Some 0\<rparr>))
        (estimatedOutput (config\<lparr>estimatedTokens := Some 0\<rparr>))
     = scoreModel telemetryStore m (config\<lparr>estimatedTokens := None\<rparr>) 1000 500"
proof -
  have i: "estimatedInput (config\<lparr>estimatedTokens := Some 0\<rparr>) = 1000"
    "estimatedInput (config\<lparr>estimatedTokens := None\<rparr>) = 1000"
    by (simp_all add: estimatedInput_def)
  have out: "estimatedOutput (config\<lparr>estimatedTokens := Some 0\<rparr>) = 500"
    "estimatedOutput (config\<lparr>estimatedTokens := None\<rparr>) = 500"
    by (simp_all add: estimatedOutput_def i)
  have sc: "scoreModel telemetryStore m' (config\<lparr>estimatedTokens := Some 0\<rparr>) a b
      = scoreModel telemetryStore m' (config\<lparr>estimatedTokens := None\<rparr>) a b" for m' a b
    by (simp add: scoreModel_def Let_def split: option.splits)
  have v: "viableModels telemetryStore (config\<lparr>estimatedTokens := Some 0\<rparr>)
      = viableModels telemetryStore (config\<lparr>estimatedTokens := None\<rparr>)"
    by (simp add: viableModels_def)
  have sel: "selectModel telemetryStore (config\<lparr>estimatedTokens := Some 0\<rparr>)
     = selectModel telemetryStore (config\<lparr>estimatedTokens := None\<rparr>)"
  proof (cases "RouterConfigSchema_parse config = Inr config")
    case True
    then have "RouterConfigSchema_parse (config\<lparr>estimatedTokens := Some 0\<rparr>)
        = Inr (config\<lparr>estimatedTokens := Some 0\<rparr>)"
      "RouterConfigSchema_parse (config\<lparr>estimatedTokens := None\<rparr>)
        = Inr (config\<lparr>estimatedTokens := None\<rparr>)"
      by (simp_all add: RouterConfigSchema_parse_def split: if_splits)
    then show ?thesis
      by (simp add: selectModel_def i out sc v Let_def split: option.splits)
  next
    case False
    then have "RouterConfigSchema_parse (config\<lparr>estimatedTokens := Some 0\<rparr>) = Inl ZodError"
      "RouterConfigSchema_parse (config\<lparr>estimatedTokens := None\<rparr>) = Inl ZodError"
      by (simp_all add: RouterConfigSchema_parse_def split: if_splits)
    then show ?thesis
      by (simp add: selectModel_def)
  qed
  show ?thesis using sel i out sc by simp
qed

section \<open>Properties of the extractor\<close>

subsection \<open>Auxiliary facts\<close>

lemma matchSentences_tiles:
  "\<exists>tail. dropWhile isTerminator doc = concat (matchSentences doc) @ tail
     \<and> (\<forall>c \<in> set tail. \<not> isTerminator c)"
proof (induction doc rule: matchSentences.induct)
  case (1 doc)
  define start where "start = dropWhile isTerminator doc"
  define body where "body = takeWhile (\<lambda>c. \<not> isTerminator c) start"
  define rest where "rest = dropWhile (\<lambda>c. \<not> isTerminator c) start"
  define stops where "stops = takeWhile isTerminator rest"
  define rest' where "rest' = dropWhile isTerminator rest"
  have split: "start = body @ stops @ rest'"
    by (simp add: body_def rest_def stops_def rest'_def)
  show ?case
  proof (cases "body = [] \<or> stops = []")
    case True
    then have none: "matchSentences doc = []"
      by (subst matchSentences.simps)
        (simp add: Let_def start_def body_def rest_def stops_def)
    have "rest = []"
    proof (rule ccontr)
      assume ne: "rest \<noteq> []"
      then have "isTerminator (hd rest)"
        unfolding rest_def by (metis hd_dropWhile)
      then have st: "stops \<noteq> []"
        using ne by (cases rest) (simp_all add: stops_def)
      have "start \<noteq> []" using ne by (auto simp: rest_def)
      then have "\<not> isTerminator (hd start)"
        unfolding start_def by (metis hd_dropWhile)
      then have "body \<noteq> []"
        using \<open>start \<noteq> []\<close> by (cases start) (simp_all add: body_def)
      with st True show False by simp
    qed
    then have "\<forall>c \<in> set start. \<not> isTerminator c"
      unfolding rest_def by (simp add: dropWhile_eq_Nil_conv)
    then show ?thesis
      using none by (simp add: start_def)
  next
    case False
    then have some: "matchSentences doc = (body @ stops) # matchSentences rest'"
      by (subst matchSentences.simps)
        (simp add: Let_def start_def body_def rest_def stops_def rest'_def)
    have "\<exists>tail. dropWhile isTerminator rest' = concat (matchSentences rest') @ tail
        \<and> (\<forall>c \<in> set tail. \<not> isTerminator c)"
      using "1.IH"[OF start_def body_def rest_def stops_def False]
      unfolding rest'_def .
    moreover have "dropWhile isTerminator rest' = rest'"
      unfolding rest'_def by (simp add: dropWhile_idem)
    ultimately obtain tail where "rest' = concat (matchSentences rest') @ tail"
      "\<forall>c \<in> set tail. \<not> isTerminator c"
      by auto
    then show ?thesis
      using some split by (intro exI[of _ tail]) (simp add: start_def)
  qed
qed

lemma matchSentences_terminated:
  "s \<in> set (matchSentences doc) \<Longrightarrow> \<exists>c \<in> set s. isTerminator c"
proof (induction doc rule: matchSentences.induct)
  case (1 doc)
  define start where "start = dropWhile isTerminator doc"
  define body where "body = takeWhile (\<lambda>c. \<not> isTerminator c) start"
  define rest where "rest = dropWhile (\<lambda>c. \<not> isTerminator c) start"
  define stops where "stops = takeWhile isTerminator rest"
  show ?case
  proof (cases "body = [] \<or> stops = []")
    case True
    then have "matchSentences doc = []"
      by (subst matchSentences.simps)
        (simp add: Let_def start_def body_def rest_def stops_def)
    with "1.prems" show ?thesis by simp
  next
    case False
    then have some: "matchSentences doc = (body @ stops) # matchSentences (dropWhile isTerminator rest)"
      by (subst matchSentences.simps)
        (simp add: Let_def start_def body_def rest_def stops_def)
    from "1.prems" some consider "s = body @ stops" | "s \<in> set (matchSentences (dropWhile isTerminator rest))"
      by auto
    then show ?thesis
    proof cases
      case 1
      from False obtain c where "c \<in> set stops" by (cases stops) auto
      then have "isTerminator c"
        unfolding stops_def by (meson set_takeWhileD)
      with \<open>c \<in> set stops\<close> 1 show ?thesis by auto
    next
      case 2
      then show ?thesis
        by (rule "1.IH"[OF start_def body_def rest_def stops_def False])
    qed
  qed
qed

lemma trim_nonempty: "(trim s \<noteq> []) = (\<exists>c \<in> set s. \<not> isSpace c)"
proof -
  let ?d = "dropWhile isSpace s"
  have "(\<forall>c \<in> set ?d. isSpace c) = (?d = [])"
  proof
    assume all: "\<forall>c \<in> set ?d. isSpace c"
    show "?d = []"
    proof (rule ccontr)
      assume ne: "?d \<noteq> []"
      then have "\<not> isSpace (hd ?d)" by (rule hd_dropWhile)
      moreover have "hd ?d \<in> set ?d" using ne by simp
      ultimately show False using all by blast
    qed
  qed (auto dest: set_dropWhileD)
  then have "(trim s = []) = (?d = [])"
    by (simp add: trim_def dropWhile_eq_Nil_conv)
  then show ?thesis
    by (simp add: dropWhile_eq_Nil_conv)
qed

lemma terminator_not_space: "isTerminator c \<Longrightarrow> \<not> isSpace c"
  by (auto simp: isTerminator_def isSpace_def)

text \<open>The loop of \<open>chunkText\<close> computes the texts of the parts.\<close>

lemma chunkLoop_parts:
  "chunkLoop cs overlap ss (map (trim \<circ> partText) parts) (partText cur) tok
    = (case chunkParts cs overlap ss parts cur tok of
         (parts', cur') \<Rightarrow> (map (trim \<circ> partText) parts', partText cur'))"
proof (induction ss arbitrary: parts cur tok)
  case Nil
  then show ?case by simp
next
  case (Cons s ss)
  obtain seed body where cur: "cur = (seed, body)" by (cases cur)
  let ?cc = "seed @ concat body"
  show ?case
  proof (cases "tok + estimateTokens s > cs \<and> ?cc \<noteq> []")
    case True
    let ?seed = "join '' '' (slice_from (- (overlap div 4)) (split_whitespace ?cc)) @ '' ''"
    have "chunkLoop cs overlap (s # ss) (map (trim \<circ> partText) parts) (partText cur) tok
        = chunkLoop cs overlap ss (map (trim \<circ> partText) (parts @ [(seed, body)]))
            (partText (?seed, [s])) (estimateTokens (?seed @ s))"
      using True by (simp add: cur partText_def Let_def)
    also have "\<dots> = (case chunkParts cs overlap ss (parts @ [(seed, body)]) (?seed, [s])
          (estimateTokens (?seed @ s)) of
        (parts', cur') \<Rightarrow> (map (trim \<circ> partText) parts', partText cur'))"
      by (rule Cons.IH)
    also have "chunkParts cs overlap ss (parts @ [(seed, body)]) (?seed, [s])
          (estimateTokens (?seed @ s)) = chunkParts cs overlap (s # ss) parts cur tok"
      using True by (simp add: cur Let_def)
    finally show ?thesis .
  next
    case False
    have "chunkLoop cs overlap (s # ss) (map (trim \<circ> partText) parts) (partText cur) tok
        = chunkLoop cs overlap ss (map (trim \<circ> partText) parts)
            (partText (seed, body @ [s])) (tok + estimateTokens s)"
      using False by (auto simp add: cur partText_def Let_def)
    also have "\<dots> = (case chunkParts cs overlap ss parts (seed, body @ [s])
          (tok + estimateTokens s) of
        (parts', cur') \<Rightarrow> (map (trim \<circ> partText) parts', partText cur'))"
      by (rule Cons.IH)
    also have "chunkParts cs overlap ss parts (seed, body @ [s]) (tok + estimateTokens s)
        = chunkParts cs overlap (s # ss) parts cur tok"
      using False by (auto simp add: cur Let_def)
    finally show ?thesis .
  qed
qed

text \<open>The parts hold the sentences in order, each once.\<close>

lemma chunkParts_sentences:
  "chunkParts cs overlap ss parts cur tok = (parts', cur') \<Longrightarrow>
   concat (map snd (parts' @ [cur'])) = concat (map snd (parts @ [cur])) @ ss"
proof (induction ss arbitrary: parts cur tok)
  case Nil
  then show ?case by simp
next
  case (Cons s ss)
  obtain seed body where cur: "cur = (seed, body)" by (cases cur)
  show ?case
  proof (cases "tok + estimateTokens s > cs \<and> seed @ concat body \<noteq> []")
    case True
    let ?seed = "join '' '' (slice_from (- (overlap div 4)) (split_whitespace (seed @ concat body))) @ '' ''"
    have "chunkParts cs overlap ss (parts @ [(seed, body)]) (?seed, [s])
        (estimateTokens (?seed @ s)) = (parts', cur')"
      using Cons.prems True by (simp add: cur Let_def)
    from Cons.IH[OF this] show ?thesis by (simp add: cur)
  next
    case False
    have "chunkParts cs overlap ss parts (seed, body @ [s]) (tok + estimateTokens s) = (parts', cur')"
      using Cons.prems False by (auto simp add: cur Let_def)
    from Cons.IH[OF this] show ?thesis by (simp add: cur)
  qed
qed

lemma chunkParts_first_seed:
  "chunkParts cs overlap ss parts cur tok = (parts', cur') \<Longrightarrow>
   fst (hd (parts' @ [cur'])) = fst (hd (parts @ [cur]))"
proof (induction ss arbitrary: parts cur tok)
  case Nil
  then show ?case by simp
next
  case (Cons s ss)
  obtain seed body where cur: "cur = (seed, body)" by (cases cur)
  show ?case
  proof (cases "tok + estimateTokens s > cs \<and> seed @ concat body \<noteq> []")
    case True
    let ?seed = "join '' '' (slice_from (- (overlap div 4)) (split_whitespace (seed @ concat body))) @ '' ''"
    have "chunkParts cs overlap ss (parts @ [(seed, body)]) (?seed, [s])
        (estimateTokens (?seed @ s)) = (parts', cur')"
      using Cons.prems True by (simp add: cur Let_def)
    from Cons.IH[OF this] show ?thesis by (cases parts) (simp_all add: cur)
  next
    case False
    have "chunkParts cs overlap ss parts (seed, body @ [s]) (tok + estimateTokens s) = (parts', cur')"
      using Cons.prems False by (auto simp add: cur Let_def)
    from Cons.IH[OF this] show ?thesis by (cases parts) (simp_all add: cur)
  qed
qed

lemma chunkParts_last_body:
  "chunkParts cs overlap ss parts cur tok = (parts', cur') \<Longrightarrow> ss \<noteq> [] \<Longrightarrow>
   snd cur' \<noteq> [] \<and> last (snd cur') = last ss"
proof (induction ss arbitrary: parts cur tok)
  case Nil
  then show ?case by simp
next
  case (Cons s ss)
  obtain seed body where cur: "cur = (seed, body)" by (cases cur)
  let ?seed = "join '' '' (slice_from (- (overlap div 4)) (split_whitespace (seed @ concat body))) @ '' ''"
  obtain parts1 cur1 tok1 where step:
    "chunkParts cs overlap (s # ss) parts cur tok = chunkParts cs overlap ss parts1 cur1 tok1"
    "snd cur1 \<noteq> []" "last (snd cur1) = s"
  proof (cases "tok + estimateTokens s > cs \<and> seed @ concat body \<noteq> []")
    case True
    show ?thesis
      by (rule that[of "parts @ [(seed, body)]" "(?seed, [s])" "estimateTokens (?seed @ s)"])
        (use True in \<open>simp_all add: cur Let_def\<close>)
  next
    case False
    show ?thesis
      by (rule that[of parts "(seed, body @ [s])" "tok + estimateTokens s"])
        (use False in \<open>auto simp add: cur Let_def\<close>)
  qed
  show ?case
  proof (cases ss)
    case Nil
    then show ?thesis using Cons.prems step by simp
  next
    case (Cons a list)
    then have "ss \<noteq> []" by simp
    from Cons.IH[of parts1 cur1 tok1] Cons.prems(1) step(1) this
    show ?thesis by (simp add: Cons)
  qed
qed

text \<open>
  What \<open>chunkText\<close> returns for a document above the budget: the trimmed texts of parts
  that hold the sentence list in order, the first with an empty seed. The last part is
  left out only when it is blank, which no matched sentence is.
\<close>

lemma chunkText_parts:
  assumes "\<not> estimateTokens doc \<le> cs"
  shows "\<exists>parts. parts \<noteq> []
      \<and> fst (hd parts) = []
      \<and> concat (map snd parts) = sentencesOf doc
      \<and> chunkText doc cs overlap
          = map (trim \<circ> partText) (if trim (partText (last parts)) \<noteq> [] then parts else butlast parts)
      \<and> (matchSentences doc \<noteq> [] \<longrightarrow> trim (partText (last parts)) \<noteq> [])"
proof -
  obtain parts' cur' where cp: "chunkParts cs overlap (sentencesOf doc) [] ([], []) 0 = (parts', cur')"
    by (cases "chunkParts cs overlap (sentencesOf doc) [] ([], []) 0")
  have ne: "sentencesOf doc \<noteq> []"
    by (simp add: sentencesOf_def split: list.splits)
  have loop: "chunkLoop cs overlap (sentencesOf doc) [] [] 0
      = (map (trim \<circ> partText) parts', partText cur')"
    using chunkLoop_parts[of cs overlap "sentencesOf doc" "[]" "([], [])" 0] cp
    by (simp add: partText_def)
  have res: "chunkText doc cs overlap
      = (if trim (partText cur') \<noteq> [] then map (trim \<circ> partText) (parts' @ [cur'])
         else map (trim \<circ> partText) parts')"
    using assms by (simp add: chunkText_def loop)
  have sent: "concat (map snd (parts' @ [cur'])) = sentencesOf doc"
    using chunkParts_sentences[OF cp] by simp
  have seed: "fst (hd (parts' @ [cur'])) = []"
    using chunkParts_first_seed[OF cp] by simp
  have lst: "snd cur' \<noteq> []" "last (snd cur') = last (sentencesOf doc)"
    using chunkParts_last_body[OF cp ne] by simp_all
  have nonblank: "trim (partText cur') \<noteq> []" if m: "matchSentences doc \<noteq> []"
  proof -
    have "sentencesOf doc = matchSentences doc"
      using m by (simp add: sentencesOf_def split: list.splits)
    then have "last (snd cur') \<in> set (matchSentences doc)"
      using lst(2) m by simp
    then obtain c where c: "c \<in> set (last (snd cur'))" "isTerminator c"
      using matchSentences_terminated by blast
    have "last (snd cur') \<in> set (snd cur')" using lst(1) by simp
    then have "c \<in> set (partText cur')"
      using c(1) by (auto simp: partText_def)
    then show ?thesis
      using c(2) terminator_not_space trim_nonempty by blast
  qed
  show ?thesis
    using res sent seed nonblank
    by (intro exI[of _ "parts' @ [cur']"]) (simp add: butlast_append)
qed

lemma attemptEvents_0: "attemptEvents idx r 0 = [Generate idx r]"
  by (simp add: attemptEvents_def)

lemma attemptEvents_Suc:
  "attemptEvents idx r (Suc n) = Generate idx r # Sleep (1000 * (r + 1)) # attemptEvents idx (Suc r) n"
  by (simp add: attemptEvents_def upt_conv_Cons)

lemma processChunk_success:
  "outcome (gen s c idx k r) = Inr out \<Longrightarrow>
   processChunk gen c idx k r s w =
     (\<lparr> chunkIndex = idx, result = out, success = True, error = None,
        processingTime = duration (gen s c idx k r) \<rparr>,
      tick (duration (gen s c idx k r)) (Generate idx r) w)"
  by (subst processChunk.simps) (simp add: tick_def Let_def)

lemma processChunk_retry:
  "outcome (gen s c idx k r) = Inl m \<Longrightarrow> r < MAX_RETRIES \<Longrightarrow>
   processChunk gen c idx k r s w =
     processChunk gen c idx k (r + 1) s
       (tick (1000 * (r + 1)) (Sleep (1000 * (r + 1)))
         (tick (duration (gen s c idx k r)) (Generate idx r) w))"
  by (subst processChunk.simps) (simp add: Let_def)

lemma processChunk_exhausted:
  "outcome (gen s c idx k r) = Inl m \<Longrightarrow> \<not> r < MAX_RETRIES \<Longrightarrow>
   processChunk gen c idx k r s w =
     (\<lparr> chunkIndex = idx, result = emptyExtraction m, success = False, error = Some m,
        processingTime = duration (gen s c idx k r) \<rparr>,
      tick (duration (gen s c idx k r)) (Generate idx r) w)"
  by (subst processChunk.simps) (simp add: tick_def Let_def)

lemma processChunk_trace:
  "r \<le> MAX_RETRIES \<Longrightarrow>
   \<exists>n. r + n \<le> MAX_RETRIES
     \<and> events (snd (processChunk gen c idx k r s w)) = events w @ attemptEvents idx r n
     \<and> chunkIndex (fst (processChunk gen c idx k r s w)) = idx
     \<and> success (fst (processChunk gen c idx k r s w)) = (\<not> isl (outcome (gen s c idx k (r + n))))"
proof (induction gen c idx k r s w rule: processChunk.induct)
  case (1 gen c idx k r s w)
  let ?w1 = "tick (duration (gen s c idx k r)) (Generate idx r) w"
  show ?case
  proof (cases "outcome (gen s c idx k r)")
    case (Inr out)
    have eq: "processChunk gen c idx k r s w =
        (\<lparr> chunkIndex = idx, result = out, success = True, error = None,
           processingTime = duration (gen s c idx k r) \<rparr>, ?w1)"
      using Inr by (rule processChunk_success)
    show ?thesis
      unfolding eq using "1.prems" Inr
      by (intro exI[of _ 0]) (simp add: attemptEvents_0 tick_def)
  next
    case (Inl m)
    show ?thesis
    proof (cases "r < MAX_RETRIES")
      case True
      let ?w2 = "tick (1000 * (r + 1)) (Sleep (1000 * (r + 1))) ?w1"
      have eq: "processChunk gen c idx k r s w = processChunk gen c idx k (r + 1) s ?w2"
        using Inl True by (rule processChunk_retry)
      have "\<exists>n. (r + 1) + n \<le> MAX_RETRIES
          \<and> events (snd (processChunk gen c idx k (r + 1) s ?w2)) = events ?w2 @ attemptEvents idx (r + 1) n
          \<and> chunkIndex (fst (processChunk gen c idx k (r + 1) s ?w2)) = idx
          \<and> success (fst (processChunk gen c idx k (r + 1) s ?w2))
              = (\<not> isl (outcome (gen s c idx k ((r + 1) + n))))"
        using True Inl by (intro "1.IH"[OF refl refl refl]) auto
      then obtain n where n: "(r + 1) + n \<le> MAX_RETRIES"
        "events (snd (processChunk gen c idx k (r + 1) s ?w2)) = events ?w2 @ attemptEvents idx (r + 1) n"
        "chunkIndex (fst (processChunk gen c idx k (r + 1) s ?w2)) = idx"
        "success (fst (processChunk gen c idx k (r + 1) s ?w2))
              = (\<not> isl (outcome (gen s c idx k ((r + 1) + n))))"
        by blast
      show ?thesis
        unfolding eq using n
        by (intro exI[of _ "Suc n"]) (simp add: attemptEvents_Suc tick_def)
    next
      case False
      have eq: "processChunk gen c idx k r s w =
          (\<lparr> chunkIndex = idx, result = emptyExtraction m, success = False, error = Some m,
             processingTime = duration (gen s c idx k r) \<rparr>, ?w1)"
        using Inl False by (rule processChunk_exhausted)
      show ?thesis
        unfolding eq using "1.prems" Inl
        by (intro exI[of _ 0]) (simp add: attemptEvents_0 tick_def)
    qed
  qed
qed

lemma processChunk_result_indep:
  "fst (processChunk gen c idx k r s w) = fst (processChunk gen c idx k r s w')"
proof (induction gen c idx k r s w arbitrary: w' rule: processChunk.induct)
  case (1 gen c idx k r s w)
  show ?case
  proof (cases "outcome (gen s c idx k r)")
    case (Inr out)
    show ?thesis
      by (simp add: processChunk_success[where gen=gen, OF Inr])
  next
    case (Inl m)
    show ?thesis
    proof (cases "r < MAX_RETRIES")
      case True
      have eq: "processChunk gen c idx k r s v = processChunk gen c idx k (r + 1) s
          (tick (1000 * (r + 1)) (Sleep (1000 * (r + 1)))
             (tick (duration (gen s c idx k r)) (Generate idx r) v))" for v
        using Inl True by (rule processChunk_retry)
      show ?thesis
        unfolding eq
        using True Inl by (intro "1.IH"[OF refl refl refl]) auto
    next
      case False
      have eq: "processChunk gen c idx k r s v =
          (\<lparr> chunkIndex = idx, result = emptyExtraction m, success = False, error = Some m,
             processingTime = duration (gen s c idx k r) \<rparr>,
           tick (duration (gen s c idx k r)) (Generate idx r) v)" for v
        using Inl False by (rule processChunk_exhausted)
      show ?thesis
        unfolding eq by simp
    qed
  qed
qed

lemma processChunk_all_fail:
  assumes "\<forall>r \<le> MAX_RETRIES. outcome (gen s c idx k r) = Inl (msg r)"
  shows "processChunk gen c idx k 0 s w =
     (\<lparr> chunkIndex = idx, result = emptyExtraction (msg 3), success = False, error = Some (msg 3),
        processingTime = duration (gen s c idx k 3) \<rparr>,
      w\<lparr> now := now w + duration (gen s c idx k 0) + 1000 + duration (gen s c idx k 1) + 2000
              + duration (gen s c idx k 2) + 3000 + duration (gen s c idx k 3),
         events := events w @ [Generate idx 0, Sleep 1000, Generate idx 1, Sleep 2000,
                     Generate idx 2, Sleep 3000, Generate idx 3] \<rparr>)"
proof -
  have f: "outcome (gen s c idx k 0) = Inl (msg 0)" "outcome (gen s c idx k 1) = Inl (msg 1)"
    "outcome (gen s c idx k 2) = Inl (msg 2)" "outcome (gen s c idx k 3) = Inl (msg 3)"
    using assms by (simp_all add: MAX_RETRIES_def)
  have lt: "0 < MAX_RETRIES" "1 < MAX_RETRIES" "2 < MAX_RETRIES" "\<not> 3 < MAX_RETRIES"
    by (simp_all add: MAX_RETRIES_def)
  define w1 where "w1 = tick 1000 (Sleep 1000) (tick (duration (gen s c idx k 0)) (Generate idx 0) w)"
  define w2 where "w2 = tick 2000 (Sleep 2000) (tick (duration (gen s c idx k 1)) (Generate idx 1) w1)"
  define w3 where "w3 = tick 3000 (Sleep 3000) (tick (duration (gen s c idx k 2)) (Generate idx 2) w2)"
  have "processChunk gen c idx k 0 s w = processChunk gen c idx k 1 s w1"
    using processChunk_retry[where gen=gen and r=0, OF f(1) lt(1)] by (simp add: w1_def)
  also have "\<dots> = processChunk gen c idx k 2 s w2"
    using processChunk_retry[where gen=gen and r=1, OF f(2) lt(2)] by (simp add: w2_def numeral_2_eq_2)
  also have "\<dots> = processChunk gen c idx k 3 s w3"
    using processChunk_retry[where gen=gen and r=2, OF f(3) lt(3)] by (simp add: w3_def numeral_2_eq_2 numeral_3_eq_3)
  also have "\<dots> = (\<lparr> chunkIndex = idx, result = emptyExtraction (msg 3), success = False,
        error = Some (msg 3), processingTime = duration (gen s c idx k 3) \<rparr>,
      tick (duration (gen s c idx k 3)) (Generate idx 3) w3)"
    using f(4) lt(4) by (rule processChunk_exhausted)
  also have "tick (duration (gen s c idx k 3)) (Generate idx 3) w3 =
      w\<lparr> now := now w + duration (gen s c idx k 0) + 1000 + duration (gen s c idx k 1) + 2000
              + duration (gen s c idx k 2) + 3000 + duration (gen s c idx k 3),
         events := events w @ [Generate idx 0, Sleep 1000, Generate idx 1, Sleep 2000,
                     Generate idx 2, Sleep 3000, Generate idx 3] \<rparr>"
    by (simp add: w3_def w2_def w1_def tick_def)
  finally show ?thesis .
qed

lemma startedChunks_append: "startedChunks (a @ b) = startedChunks a @ startedChunks b"
  by (induction a rule: startedChunks.induct) simp_all

lemma generatedChunks_append: "generatedChunks (a @ b) = generatedChunks a @ generatedChunks b"
  by (induction a rule: generatedChunks.induct) simp_all

lemma savedCheckpoints_append: "savedCheckpoints (a @ b) = savedCheckpoints a @ savedCheckpoints b"
  by (induction a rule: savedCheckpoints.induct) simp_all

lemma startedChunks_attemptEvents_Suc: "startedChunks (attemptEvents idx (Suc r) n) = []"
  by (induction n arbitrary: r) (simp_all add: attemptEvents_0 attemptEvents_Suc)

lemma startedChunks_attemptEvents: "startedChunks (attemptEvents idx 0 n) = [idx]"
  by (cases n) (simp_all add: attemptEvents_0 attemptEvents_Suc startedChunks_attemptEvents_Suc)

lemma generatedChunks_attemptEvents: "set (generatedChunks (attemptEvents idx r n)) = {idx}"
  by (induction n arbitrary: r) (simp_all add: attemptEvents_0 attemptEvents_Suc)

lemma savedCheckpoints_attemptEvents: "savedCheckpoints (attemptEvents idx r n) = []"
  by (induction n arbitrary: r) (simp_all add: attemptEvents_0 attemptEvents_Suc)

lemma overwriteLastSummary_snoc:
  "overwriteLastSummary t (rs @ [r]) = rs @ [r\<lparr> result := (result r)\<lparr> summary := t \<rparr> \<rparr>]"
  by (simp add: overwriteLastSummary_def)

text \<open>The two branches of one iteration, written out.\<close>

lemma processStep_success:
  assumes "processChunk gen (chunks ! idx) idx (length chunks) 0 s w = (r, w1)" and "success r"
  shows "processStep gen summ fp chunks s idx (p, w) =
    (p\<lparr> chunkResults := chunkResults p @ [r], completedChunks := completedChunks p + 1 \<rparr>,
     saveCheckpoint fp
       (p\<lparr> chunkResults := chunkResults p @ [r], completedChunks := completedChunks p + 1 \<rparr>) w1)"
  using assms by (simp add: processStep_def Let_def)

lemma processStep_failure:
  assumes "processChunk gen (chunks ! idx) idx (length chunks) 0 s w = (r, w1)" and "\<not> success r"
    and "summarizeFailedChunk summ (chunks ! idx) w1 = (t, w2)"
  shows "processStep gen summ fp chunks s idx (p, w) =
    (p\<lparr> failedChunks := failedChunks p + 1,
        chunkResults := chunkResults p @ [r\<lparr> result := (result r)\<lparr> summary := t \<rparr> \<rparr>] \<rparr>,
     saveCheckpoint fp
       (p\<lparr> failedChunks := failedChunks p + 1,
           chunkResults := chunkResults p @ [r\<lparr> result := (result r)\<lparr> summary := t \<rparr> \<rparr>] \<rparr>) w2)"
  using assms by (simp add: processStep_def Let_def overwriteLastSummary_snoc)

lemma summarizeFailedChunk_events:
  "summarizeFailedChunk summ c w = (t, w2) \<Longrightarrow> events w2 = events w @ [Summarize c]"
  by (auto simp: summarizeFailedChunk_def tick_def split: prod.splits)

lemma saveCheckpoint_events:
  "events (saveCheckpoint fp p w) = events w @
     [SaveCheckpoint \<lparr> filePath = fp, ckTotalChunks = totalChunks p,
        ckCompletedChunks = map chunkIndex (filter success (chunkResults p)),
        ckChunkResults = chunkResults p, timestamp = now w \<rparr>]"
  by (simp add: saveCheckpoint_def Let_def)

lemma processStep_facts:
  assumes "processStep gen summ fp chunks s idx (p, w) = (p', w')"
  shows "\<exists>r evs ck.
      chunkResults p' = chunkResults p @ [r] \<and> chunkIndex r = idx
    \<and> success r = success (fst (processChunk gen (chunks ! idx) idx (length chunks) 0 s w))
    \<and> (success r \<longrightarrow> r = fst (processChunk gen (chunks ! idx) idx (length chunks) 0 s w))
    \<and> totalChunks p' = totalChunks p
    \<and> events w' = events w @ evs \<and> startedChunks evs = [idx] \<and> set (generatedChunks evs) = {idx}
    \<and> savedCheckpoints evs = [ck] \<and> stepCheckpoint ck (totalChunks p) (chunkResults p')
    \<and> completedChunks p' = completedChunks p + (if success r then 1 else 0)"
proof -
  obtain r w1 where pc: "processChunk gen (chunks ! idx) idx (length chunks) 0 s w = (r, w1)"
    by (cases "processChunk gen (chunks ! idx) idx (length chunks) 0 s w")
  from processChunk_trace[of 0 gen "chunks ! idx" idx "length chunks" s w] pc
  obtain n where ev1: "events w1 = events w @ attemptEvents idx 0 n" and ci: "chunkIndex r = idx"
    by auto
  show ?thesis
  proof (cases "success r")
    case True
    let ?p = "p\<lparr> chunkResults := chunkResults p @ [r], completedChunks := completedChunks p + 1 \<rparr>"
    have eq: "p' = ?p" "w' = saveCheckpoint fp ?p w1"
      using processStep_success[OF pc True, of summ fp p] assms by simp_all
    let ?ck = "\<lparr> filePath = fp, ckTotalChunks = totalChunks ?p,
        ckCompletedChunks = map chunkIndex (filter success (chunkResults ?p)),
        ckChunkResults = chunkResults ?p, timestamp = now w1 \<rparr>"
    let ?evs = "attemptEvents idx 0 n @ [SaveCheckpoint ?ck]"
    have "events w' = events w @ ?evs"
      unfolding eq by (simp only: saveCheckpoint_events ev1 append_assoc)
    moreover have "startedChunks ?evs = [idx]" "set (generatedChunks ?evs) = {idx}"
      "savedCheckpoints ?evs = [?ck]"
      by (simp_all add: startedChunks_append generatedChunks_append savedCheckpoints_append
          startedChunks_attemptEvents generatedChunks_attemptEvents savedCheckpoints_attemptEvents)
    moreover have "stepCheckpoint ?ck (totalChunks p) (chunkResults p')"
      unfolding eq by (simp add: stepCheckpoint_def)
    ultimately show ?thesis
      using ci True pc unfolding eq(1) by (intro exI[of _ r] exI[of _ ?evs] exI[of _ ?ck]) simp
  next
    case False
    obtain t w2 where sm: "summarizeFailedChunk summ (chunks ! idx) w1 = (t, w2)"
      by (cases "summarizeFailedChunk summ (chunks ! idx) w1")
    let ?r = "r\<lparr> result := (result r)\<lparr> summary := t \<rparr> \<rparr>"
    let ?p = "p\<lparr> failedChunks := failedChunks p + 1, chunkResults := chunkResults p @ [?r] \<rparr>"
    have eq: "p' = ?p" "w' = saveCheckpoint fp ?p w2"
      using processStep_failure[OF pc False sm, of fp p] assms by simp_all
    let ?ck = "\<lparr> filePath = fp, ckTotalChunks = totalChunks ?p,
        ckCompletedChunks = map chunkIndex (filter success (chunkResults ?p)),
        ckChunkResults = chunkResults ?p, timestamp = now w2 \<rparr>"
    let ?evs = "attemptEvents idx 0 n @ [Summarize (chunks ! idx), SaveCheckpoint ?ck]"
    have "events w' = events w @ ?evs"
      unfolding eq by (simp add: saveCheckpoint_events summarizeFailedChunk_events[OF sm] ev1)
    moreover have "startedChunks ?evs = [idx]" "set (generatedChunks ?evs) = {idx}"
      "savedCheckpoints ?evs = [?ck]"
      by (simp_all add: startedChunks_append generatedChunks_append savedCheckpoints_append
          startedChunks_attemptEvents generatedChunks_attemptEvents savedCheckpoints_attemptEvents)
    moreover have "stepCheckpoint ?ck (totalChunks p) (chunkResults p')"
      unfolding eq by (simp add: stepCheckpoint_def)
    ultimately show ?thesis
      using ci False pc unfolding eq(1) by (intro exI[of _ ?r] exI[of _ ?evs] exI[of _ ?ck]) simp
  qed
qed

text \<open>When \<open>displayProgress\<close> throws: the bar would need more than 40 cells.\<close>

lemma displayProgress_throws:
  "(displayProgress p = Some RangeError)
    = (if totalChunks p = 0 then 0 < completedChunks p
       else 81 * totalChunks p \<le> 80 * completedChunks p)"
proof (cases "totalChunks p = 0")
  case True
  then show ?thesis by (simp add: displayProgress_def)
next
  case False
  let ?c = "real (completedChunks p)" and ?t = "real (totalChunks p)"
  have t: "0 < ?t" using False by simp
  have "(40 - \<lfloor>?c / ?t * 40 + 1 / 2\<rfloor> < 0) = (41 \<le> \<lfloor>?c / ?t * 40 + 1 / 2\<rfloor>)" by linarith
  also have "\<dots> = (41 \<le> ?c / ?t * 40 + 1 / 2)" by (simp add: le_floor_iff)
  also have "\<dots> = (81 * ?t \<le> 80 * ?c)" using t by (simp add: field_simps)
  also have "\<dots> = (81 * totalChunks p \<le> 80 * completedChunks p)"
    by (metis of_nat_le_iff of_nat_mult of_nat_numeral)
  finally show ?thesis using False by (simp add: displayProgress_def Let_def)
qed

lemma displayProgress_cases: "displayProgress p = None \<or> displayProgress p = Some RangeError"
  by (simp add: displayProgress_def Let_def)

lemma displayProgress_ok: "completedChunks p \<le> totalChunks p \<Longrightarrow> displayProgress p = None"
  using displayProgress_cases[of p] displayProgress_throws[of p]
  by (cases "totalChunks p = 0") auto

lemma displayProgress_cong:
  "completedChunks p = completedChunks q \<Longrightarrow> totalChunks p = totalChunks q \<Longrightarrow>
   displayProgress p = displayProgress q"
  by (simp add: displayProgress_def)

lemma processAll_Nil: "processAll gen summ fp chunks s [] (p, w) = (Inr p, w)"
  by simp

lemma processAll_Cons:
  "displayProgress p = None \<Longrightarrow>
   processAll gen summ fp chunks s (idx # todo) (p, w) =
     processAll gen summ fp chunks s todo (processStep gen summ fp chunks s idx (p, w))"
  by simp

lemma processAll_throw:
  "displayProgress p = Some e \<Longrightarrow>
   processAll gen summ fp chunks s (idx # todo) (p, w) = (Inl e, w)"
  by simp

text \<open>
  What a run of the loop leaves, whether it ends or throws: the events it added, the chunk
  results it pushed, and the checkpoints it wrote. When it ends, it has processed every
  index.
\<close>

lemma processAll_facts:
  "processAll gen summ fp chunks s todo (p, w) = (res, w') \<Longrightarrow>
   \<exists>rs evs.
      events w' = events w @ evs
    \<and> set (map chunkIndex rs) \<subseteq> set todo
    \<and> (\<forall>ck \<in> set (savedCheckpoints evs).
          \<exists>k \<le> length rs. stepCheckpoint ck (totalChunks p) (chunkResults p @ take k rs))
    \<and> (\<forall>p'. res = Inr p' \<longrightarrow>
          chunkResults p' = chunkResults p @ rs \<and> map chunkIndex rs = todo
        \<and> totalChunks p' = totalChunks p
        \<and> completedChunks p' = completedChunks p + length (filter success rs)
        \<and> filter success rs
            = filter success
                (map (\<lambda>i. fst (processChunk gen (chunks ! i) i (length chunks) 0 s w)) todo)
        \<and> startedChunks evs = todo
        \<and> set (generatedChunks evs) = set todo
        \<and> length (savedCheckpoints evs) = length todo)"
proof (induction todo arbitrary: p w)
  case Nil
  then show ?case by (intro exI[of _ "[]"]) auto
next
  case (Cons idx todo)
  show ?case
  proof (cases "displayProgress p")
    case (Some e)
    then have "res = Inl e" "w' = w"
      using Cons.prems by simp_all
    then show ?thesis by (intro exI[of _ "[]"]) simp
  next
    case None
    let ?pc = "\<lambda>v i. fst (processChunk gen (chunks ! i) i (length chunks) 0 s v)"
    obtain p1 w1 where st: "processStep gen summ fp chunks s idx (p, w) = (p1, w1)"
      by (cases "processStep gen summ fp chunks s idx (p, w)")
    from processStep_facts[OF st] obtain r evs1 ck where
      f1: "chunkResults p1 = chunkResults p @ [r]" "chunkIndex r = idx"
        "success r = success (?pc w idx)" "success r \<longrightarrow> r = ?pc w idx"
        "totalChunks p1 = totalChunks p" "events w1 = events w @ evs1" "startedChunks evs1 = [idx]"
        "set (generatedChunks evs1) = {idx}" "savedCheckpoints evs1 = [ck]"
        "stepCheckpoint ck (totalChunks p) (chunkResults p1)"
        "completedChunks p1 = completedChunks p + (if success r then 1 else 0)"
      by blast
    have run: "processAll gen summ fp chunks s todo (p1, w1) = (res, w')"
      using Cons.prems st None by simp
    from Cons.IH[OF run] obtain rs evs where
      f2: "events w' = events w1 @ evs" "set (map chunkIndex rs) \<subseteq> set todo"
        "\<forall>ck \<in> set (savedCheckpoints evs).
            \<exists>k \<le> length rs. stepCheckpoint ck (totalChunks p1) (chunkResults p1 @ take k rs)"
        "\<forall>p'. res = Inr p' \<longrightarrow>
            chunkResults p' = chunkResults p1 @ rs \<and> map chunkIndex rs = todo
          \<and> totalChunks p' = totalChunks p1
          \<and> completedChunks p' = completedChunks p1 + length (filter success rs)
          \<and> filter success rs = filter success (map (?pc w1) todo)
          \<and> startedChunks evs = todo
          \<and> set (generatedChunks evs) = set todo
          \<and> length (savedCheckpoints evs) = length todo"
      by blast
    have indep: "?pc w1 = ?pc w"
      by (rule ext) (rule processChunk_result_indep)
    have fr: "filter success [r] = filter success [?pc w idx]"
      using f1(3,4) by auto
    have a: "\<exists>k \<le> length (r # rs).
        stepCheckpoint c (totalChunks p) (chunkResults p @ take k (r # rs))"
      if "c \<in> set (savedCheckpoints (evs1 @ evs))" for c
    proof -
      from that consider "c = ck" | "c \<in> set (savedCheckpoints evs)"
        by (auto simp: savedCheckpoints_append f1(9))
      then show ?thesis
      proof cases
        case 1
        then show ?thesis using f1(10) f1(1) by (intro exI[of _ 1]) simp
      next
        case 2
        with f2(3) obtain k where "k \<le> length rs"
          "stepCheckpoint c (totalChunks p1) (chunkResults p1 @ take k rs)" by blast
        then show ?thesis
          using f1(1,5) by (intro exI[of _ "Suc k"]) simp
      qed
    qed
    have b: "chunkResults p' = chunkResults p @ r # rs \<and> map chunkIndex (r # rs) = idx # todo
          \<and> totalChunks p' = totalChunks p
          \<and> completedChunks p' = completedChunks p + length (filter success (r # rs))
          \<and> filter success (r # rs) = filter success (map (?pc w) (idx # todo))
          \<and> startedChunks (evs1 @ evs) = idx # todo
          \<and> set (generatedChunks (evs1 @ evs)) = set (idx # todo)
          \<and> length (savedCheckpoints (evs1 @ evs)) = length (idx # todo)"
      if "res = Inr p'" for p'
    proof -
      from f2(4) that have g:
        "chunkResults p' = chunkResults p1 @ rs" "map chunkIndex rs = todo"
        "totalChunks p' = totalChunks p1"
        "completedChunks p' = completedChunks p1 + length (filter success rs)"
        "filter success rs = filter success (map (?pc w1) todo)"
        "startedChunks evs = todo" "set (generatedChunks evs) = set todo"
        "length (savedCheckpoints evs) = length todo"
        by blast+
      have "filter success (r # rs) = filter success [r] @ filter success rs" by simp
      also have "\<dots> = filter success [?pc w idx] @ filter success (map (?pc w) todo)"
        unfolding fr g(5) indep ..
      also have "\<dots> = filter success (map (?pc w) (idx # todo))" by simp
      finally have fs: "filter success (r # rs) = filter success (map (?pc w) (idx # todo))" .
      have c1: "chunkResults p' = chunkResults p @ r # rs"
        using g(1) f1(1) by simp
      have c2: "map chunkIndex (r # rs) = idx # todo"
        using g(2) f1(2) by simp
      have c3: "totalChunks p' = totalChunks p"
        using g(3) f1(5) by simp
      have c4: "completedChunks p' = completedChunks p + length (filter success (r # rs))"
        using g(4) f1(11) by simp
      have c5: "startedChunks (evs1 @ evs) = idx # todo"
        using g(6) f1(7) by (simp add: startedChunks_append)
      have c6: "set (generatedChunks (evs1 @ evs)) = set (idx # todo)"
        using g(7) f1(8) by (simp add: generatedChunks_append)
      have c7: "length (savedCheckpoints (evs1 @ evs)) = length (idx # todo)"
        using g(8) f1(9) by (simp add: savedCheckpoints_append)
      from c1 c2 c3 c4 fs c5 c6 c7 show ?thesis by (intro conjI)
    qed
    have c: "set (map chunkIndex (r # rs)) \<subseteq> set (idx # todo)"
      using f1(2) f2(2) by auto
    have d: "events w' = events w @ evs1 @ evs"
      using f1(6) f2(1) by simp
    show ?thesis
      using a b c d by (intro exI[of _ "r # rs"] exI[of _ "evs1 @ evs"]) blast
  qed
qed

text \<open>The loop ends when the completed count cannot pass the chunk count.\<close>

lemma processStep_counts:
  assumes "processStep gen summ fp chunks s idx (p, w) = (p', w')"
  shows "totalChunks p' = totalChunks p"
    and "completedChunks p' \<le> completedChunks p + 1"
    and "completedChunks p \<le> completedChunks p'"
  using processStep_facts[OF assms] by auto

lemma processAll_ends:
  "completedChunks p + length todo \<le> totalChunks p \<Longrightarrow>
   \<exists>p'. fst (processAll gen summ fp chunks s todo (p, w)) = Inr p'"
proof (induction todo arbitrary: p w)
  case Nil
  then show ?case by simp
next
  case (Cons idx todo)
  have ok: "displayProgress p = None"
    using Cons.prems by (intro displayProgress_ok) simp
  obtain p1 w1 where st: "processStep gen summ fp chunks s idx (p, w) = (p1, w1)"
    by (cases "processStep gen summ fp chunks s idx (p, w)")
  have "completedChunks p1 + length todo \<le> totalChunks p1"
    using processStep_counts[OF st] Cons.prems by simp
  from Cons.IH[OF this, of w1] show ?case
    by (simp add: ok st)
qed

lemma summarizeFailedChunk_text:
  "fst (summarizeFailedChunk summ c w) = fst (summarizeFailedChunk summ c w')"
  by (simp add: summarizeFailedChunk_def split: prod.splits)

lemma eventsSince_append: "events w' = events w @ evs \<Longrightarrow> eventsSince w w' = evs"
  by (simp add: eventsSince_def)

lemma processChunk_recovers:
  assumes "r + k \<le> MAX_RETRIES"
    and "\<forall>j < k. isl (outcome (gen s c idx n (r + j)))"
    and "outcome (gen s c idx n (r + k)) = Inr out"
  shows "fst (processChunk gen c idx n r s w)
      = \<lparr> chunkIndex = idx, result = out, success = True, error = None,
          processingTime = duration (gen s c idx n (r + k)) \<rparr>
    \<and> events (snd (processChunk gen c idx n r s w)) = events w @ attemptEvents idx r k"
  using assms
proof (induction k arbitrary: r w)
  case 0
  then have "outcome (gen s c idx n r) = Inr out" by simp
  from processChunk_success[where gen=gen, OF this] show ?case
    by (simp add: attemptEvents_0 tick_def)
next
  case (Suc k)
  from Suc.prems(2) have "isl (outcome (gen s c idx n (r + 0)))" by blast
  then obtain m where m: "outcome (gen s c idx n r) = Inl m"
    by (cases "outcome (gen s c idx n r)") simp_all
  have lt: "r < MAX_RETRIES" using Suc.prems(1) by simp
  let ?w2 = "tick (1000 * (r + 1)) (Sleep (1000 * (r + 1)))
      (tick (duration (gen s c idx n r)) (Generate idx r) w)"
  have eq: "processChunk gen c idx n r s w = processChunk gen c idx n (r + 1) s ?w2"
    using m lt by (rule processChunk_retry)
  have a: "(r + 1) + k \<le> MAX_RETRIES" using Suc.prems(1) by simp
  have b: "\<forall>j < k. isl (outcome (gen s c idx n ((r + 1) + j)))"
  proof (intro allI impI)
    fix j assume "j < k"
    then have "Suc j < Suc k" by simp
    with Suc.prems(2) have "isl (outcome (gen s c idx n (r + Suc j)))" by blast
    then show "isl (outcome (gen s c idx n ((r + 1) + j)))" by simp
  qed
  have c: "outcome (gen s c idx n ((r + 1) + k)) = Inr out"
    using Suc.prems(3) by simp
  from Suc.IH[OF a b c, of ?w2] show ?case
    unfolding eq by (simp add: attemptEvents_Suc tick_def)
qed

lemma clearCheckpoint_events:
  "\<exists>evs. events (clearCheckpoint fp w) = events w @ evs
     \<and> startedChunks evs = [] \<and> generatedChunks evs = [] \<and> savedCheckpoints evs = []"
  by (simp add: clearCheckpoint_def)

lemma reduceResults_filter: "reduceResults (filter success rs) = reduceResults rs"
  by (simp add: reduceResults_def)

lemma reduceResults_successes:
  "filter success rs = filter success rs' \<Longrightarrow> reduceResults rs = reduceResults rs'"
  by (metis reduceResults_filter)

text \<open>A run on an existing document, in terms of the loop.\<close>

lemma extractLargeDocument_throws:
  assumes "files w fp = Some document"
    and "chunks = chunkText document (chunkSizeOf options) OVERLAP_SIZE"
    and "processAll gen summ fp chunks (useStreamingOf options)
           (chunksToProcess (loadedCheckpoint fp options w) (length chunks))
           (initialProgress (loadedCheckpoint fp options w) (length chunks) w, w) = (Inl e, w')"
  shows "extractLargeDocument gen summ fp options w = (Inl e, w')"
  using assms by (simp add: extractLargeDocument_def Let_def)

lemma extractLargeDocument_throws_last:
  assumes "files w fp = Some document"
    and "chunks = chunkText document (chunkSizeOf options) OVERLAP_SIZE"
    and "processAll gen summ fp chunks (useStreamingOf options)
           (chunksToProcess (loadedCheckpoint fp options w) (length chunks))
           (initialProgress (loadedCheckpoint fp options w) (length chunks) w, w) = (Inr p', w')"
    and "displayProgress p' = Some e"
  shows "extractLargeDocument gen summ fp options w = (Inl e, w')"
  using assms by (simp add: extractLargeDocument_def Let_def)

lemma extractLargeDocument_run:
  assumes "files w fp = Some document"
    and "chunks = chunkText document (chunkSizeOf options) OVERLAP_SIZE"
    and "processAll gen summ fp chunks (useStreamingOf options)
           (chunksToProcess (loadedCheckpoint fp options w) (length chunks))
           (initialProgress (loadedCheckpoint fp options w) (length chunks) w, w) = (Inr p', w')"
    and "displayProgress p' = None"
  shows "extractLargeDocument gen summ fp options w
    = (Inr (reduceResults (chunkResults p')), clearCheckpoint fp w')"
  using assms by (simp add: extractLargeDocument_def Let_def)

lemma extractLargeDocument_world:
  assumes "files w fp = Some document"
    and "chunks = chunkText document (chunkSizeOf options) OVERLAP_SIZE"
    and "processAll gen summ fp chunks (useStreamingOf options)
           (chunksToProcess (loadedCheckpoint fp options w) (length chunks))
           (initialProgress (loadedCheckpoint fp options w) (length chunks) w, w) = (res, w')"
  shows "snd (extractLargeDocument gen summ fp options w) = w'
      \<or> snd (extractLargeDocument gen summ fp options w) = clearCheckpoint fp w'"
  using assms
  by (simp add: extractLargeDocument_def Let_def split: sum.splits option.splits)

text \<open>The checkpoints a run writes, whether it ends or throws.\<close>

lemma extractLargeDocument_saved:
  assumes doc: "files w fp = Some document"
    and ch: "chunks = chunkText document (chunkSizeOf options) OVERLAP_SIZE"
    and p0: "p0 = initialProgress (loadedCheckpoint fp options w) (length chunks) w"
    and td: "todo = chunksToProcess (loadedCheckpoint fp options w) (length chunks)"
  shows "\<exists>rs. set (map chunkIndex rs) \<subseteq> set todo
    \<and> (\<forall>ck \<in> set (savedCheckpoints
          (eventsSince w (snd (extractLargeDocument gen summ fp options w)))).
          \<exists>k \<le> length rs. stepCheckpoint ck (length chunks) (chunkResults p0 @ take k rs))"
proof -
  obtain res w' where run: "processAll gen summ fp chunks (useStreamingOf options) todo (p0, w) = (res, w')"
    by (cases "processAll gen summ fp chunks (useStreamingOf options) todo (p0, w)")
  from processAll_facts[OF run] obtain rs evs where
    f: "events w' = events w @ evs" "set (map chunkIndex rs) \<subseteq> set todo"
      "\<forall>ck \<in> set (savedCheckpoints evs).
          \<exists>k \<le> length rs. stepCheckpoint ck (totalChunks p0) (chunkResults p0 @ take k rs)"
    by blast
  have tot: "totalChunks p0 = length chunks"
    by (simp add: p0 initialProgress_def split: option.splits)
  from clearCheckpoint_events[of fp w'] obtain evs' where
    c: "events (clearCheckpoint fp w') = events w' @ evs'" "savedCheckpoints evs' = []"
    by blast
  have "snd (extractLargeDocument gen summ fp options w) = w'
      \<or> snd (extractLargeDocument gen summ fp options w) = clearCheckpoint fp w'"
    using extractLargeDocument_world[OF doc ch, of gen summ res w'] run by (simp add: p0 td)
  then have "savedCheckpoints (eventsSince w (snd (extractLargeDocument gen summ fp options w)))
      = savedCheckpoints evs"
  proof
    assume e: "snd (extractLargeDocument gen summ fp options w) = w'"
    show ?thesis unfolding e by (simp add: eventsSince_def f(1))
  next
    assume e: "snd (extractLargeDocument gen summ fp options w) = clearCheckpoint fp w'"
    show ?thesis unfolding e
      by (simp add: eventsSince_def f(1) c savedCheckpoints_append)
  qed
  with f(2,3) tot show ?thesis by auto
qed

text \<open>
  A run whose completed count cannot pass the chunk count ends: it processes every pending
  index once and reduces the initial results followed by the new ones.
\<close>

lemma extractLargeDocument_ends:
  assumes doc: "files w fp = Some document"
    and ch: "chunks = chunkText document (chunkSizeOf options) OVERLAP_SIZE"
    and p0: "p0 = initialProgress (loadedCheckpoint fp options w) (length chunks) w"
    and td: "todo = chunksToProcess (loadedCheckpoint fp options w) (length chunks)"
    and room: "completedChunks p0 + length todo \<le> length chunks"
  shows "\<exists>w''.
      extractLargeDocument gen summ fp options w
        = (Inr (reduceResults (chunkResults p0 @
              map (\<lambda>i. fst (processChunk gen (chunks ! i) i (length chunks) 0
                               (useStreamingOf options) w)) todo)), w'')
    \<and> startedChunks (eventsSince w w'') = todo
    \<and> set (generatedChunks (eventsSince w w'')) = set todo
    \<and> length (savedCheckpoints (eventsSince w w'')) = length todo"
proof -
  let ?s = "useStreamingOf options"
  let ?new = "map (\<lambda>i. fst (processChunk gen (chunks ! i) i (length chunks) 0 ?s w)) todo"
  have tot: "totalChunks p0 = length chunks"
    by (simp add: p0 initialProgress_def split: option.splits)
  from processAll_ends[of p0 todo gen summ fp chunks ?s w] room tot
  obtain p' w' where run: "processAll gen summ fp chunks ?s todo (p0, w) = (Inr p', w')"
    by (cases "processAll gen summ fp chunks ?s todo (p0, w)") auto
  from processAll_facts[OF run] obtain rs evs where
    f: "events w' = events w @ evs"
      "chunkResults p' = chunkResults p0 @ rs" "map chunkIndex rs = todo"
      "totalChunks p' = totalChunks p0"
      "completedChunks p' = completedChunks p0 + length (filter success rs)"
      "filter success rs = filter success ?new"
      "startedChunks evs = todo" "set (generatedChunks evs) = set todo"
      "length (savedCheckpoints evs) = length todo"
    by blast
  have "length rs = length todo" using f(3) by (metis length_map)
  then have "completedChunks p' \<le> totalChunks p'"
    using f(4,5) room tot length_filter_le[of success rs] by simp
  then have ok: "displayProgress p' = None" by (rule displayProgress_ok)
  from clearCheckpoint_events[of fp w'] obtain evs' where
    c: "events (clearCheckpoint fp w') = events w' @ evs'" "startedChunks evs' = []"
      "generatedChunks evs' = []" "savedCheckpoints evs' = []"
    by blast
  have since: "eventsSince w (clearCheckpoint fp w') = evs @ evs'"
    by (rule eventsSince_append) (simp add: c(1) f(1))
  have red: "reduceResults (chunkResults p') = reduceResults (chunkResults p0 @ ?new)"
    by (rule reduceResults_successes) (simp add: f(2,6))
  have ex: "extractLargeDocument gen summ fp options w
      = (Inr (reduceResults (chunkResults p0 @ ?new)), clearCheckpoint fp w')"
    using extractLargeDocument_run[OF doc ch, of gen summ p' w'] run ok red
    by (simp add: p0 td)
  show ?thesis
    using ex f(7,8,9) c(2,3,4)
    by (intro exI[of _ "clearCheckpoint fp w'"])
      (simp add: since startedChunks_append generatedChunks_append savedCheckpoints_append)
qed

text \<open>The fields of the reduction, in terms of the successful results.\<close>

lemma addAll_set: "set (addAll acc xs) = set acc \<union> set xs"
  unfolding addAll_def by (induction xs arbitrary: acc) auto

lemma addAll_snoc:
  "addAll acc (xs @ [x]) = (if x \<in> set (addAll acc xs) then addAll acc xs else addAll acc xs @ [x])"
  by (simp add: addAll_def)

lemma addAll_append: "addAll acc (xs @ ys) = addAll (addAll acc xs) ys"
  by (simp add: addAll_def)

lemma addAll_first_occurrences: "addAll [] xs = rev (remdups (rev xs))"
  by (induction xs rule: rev_induct) (simp_all add: addAll_def addAll_snoc addAll_set)

lemma foldl_addAll:
  "foldl (\<lambda>s r. addAll s (f r)) acc rs = addAll acc (concat (map f rs))"
  by (induction rs arbitrary: acc) (simp_all add: addAll_def addAll_append)

lemma reduceResults_fields:
  assumes "kept = filter success rs"
    and "summaries = filter (\<lambda>t. t \<noteq> []) (map (\<lambda>r. summary (result r)) kept)"
  shows "reduceResults rs =
    \<lparr> keyTakeaway =
        (if summaries = [] then ''Unable to extract key takeaway from document.''
         else take 250 (join '' '' (take 3 summaries))),
      companies = rev (remdups (rev (concat (map (\<lambda>r. companies (result r)) kept)))),
      concepts =
        \<lparr> business = rev (remdups (rev (concat (map (\<lambda>r. business (concepts (result r))) kept)))),
          technical = rev (remdups (rev (concat (map (\<lambda>r. technical (concepts (result r))) kept)))) \<rparr>,
      quotes = concat (map (\<lambda>r. quotes (result r)) kept),
      summary = join '' '' summaries \<rparr>"
  unfolding assms
  by (simp add: reduceResults_def Let_def foldl_addAll addAll_first_occurrences)

lemma completed_three:
  assumes "set xs = {0, 1, 2::nat}" and "distinct xs"
  shows "length xs = 3"
proof -
  have "length xs = card (set xs)" using assms(2) by (simp add: distinct_card)
  then show ?thesis by (simp add: assms(1))
qed

lemma stepCheckpoint_completed:
  "stepCheckpoint ck n rs \<Longrightarrow>
   set (ckCompletedChunks ck) = chunkIndex ` {r \<in> set (ckChunkResults ck). success r}"
  by (auto simp: stepCheckpoint_def)

lemma stepCheckpoint_invariant:
  assumes "stepCheckpoint ck n rs" and "\<forall>r \<in> set rs. success r \<longrightarrow> chunkIndex r < n"
  shows "checkpointInvariant ck"
  using assms by (auto simp: stepCheckpoint_def checkpointInvariant_def)

lemma chunksToProcess_bound: "set (chunksToProcess c n) \<subseteq> {..<n}"
  by (auto simp: chunksToProcess_def split: option.splits)

text \<open>The summariser reaches the failed results only.\<close>

lemma processStep_alike:
  assumes "alike p q"
  shows "alike (fst (processStep gen summ fp chunks s idx (p, w)))
               (fst (processStep gen summ' fp chunks s idx (q, v)))"
proof -
  obtain r w1 where pc: "processChunk gen (chunks ! idx) idx (length chunks) 0 s w = (r, w1)"
    by (cases "processChunk gen (chunks ! idx) idx (length chunks) 0 s w")
  obtain r' v1 where pc': "processChunk gen (chunks ! idx) idx (length chunks) 0 s v = (r', v1)"
    by (cases "processChunk gen (chunks ! idx) idx (length chunks) 0 s v")
  have same: "r' = r"
    using pc pc' processChunk_result_indep[of gen "chunks ! idx" idx "length chunks" 0 s w v] by simp
  show ?thesis
  proof (cases "success r")
    case True
    show ?thesis
      using assms True
      by (simp add: alike_def processStep_success[OF pc True]
          processStep_success[OF pc'[unfolded same] True])
  next
    case False
    obtain t w2 where sm: "summarizeFailedChunk summ (chunks ! idx) w1 = (t, w2)"
      by (cases "summarizeFailedChunk summ (chunks ! idx) w1")
    obtain t' v2 where sm': "summarizeFailedChunk summ' (chunks ! idx) v1 = (t', v2)"
      by (cases "summarizeFailedChunk summ' (chunks ! idx) v1")
    show ?thesis
      using assms False
      by (simp add: alike_def processStep_failure[OF pc False sm]
          processStep_failure[OF pc'[unfolded same] False sm'])
  qed
qed

lemma processAll_alike:
  "alike p q \<Longrightarrow>
   (\<exists>e. fst (processAll gen summ fp chunks s todo (p, w)) = Inl e
       \<and> fst (processAll gen summ' fp chunks s todo (q, v)) = Inl e)
   \<or> (\<exists>p' q'. fst (processAll gen summ fp chunks s todo (p, w)) = Inr p'
       \<and> fst (processAll gen summ' fp chunks s todo (q, v)) = Inr q' \<and> alike p' q')"
proof (induction todo arbitrary: p q w v)
  case Nil
  then show ?case by simp
next
  case (Cons idx todo)
  have dp: "displayProgress p = displayProgress q"
    using Cons.prems by (intro displayProgress_cong) (simp_all add: alike_def)
  show ?case
  proof (cases "displayProgress p")
    case (Some e)
    then show ?thesis using dp by simp
  next
    case None
    obtain p1 w1 where a: "processStep gen summ fp chunks s idx (p, w) = (p1, w1)"
      by (cases "processStep gen summ fp chunks s idx (p, w)")
    obtain q1 v1 where b: "processStep gen summ' fp chunks s idx (q, v) = (q1, v1)"
      by (cases "processStep gen summ' fp chunks s idx (q, v)")
    have "alike p1 q1"
      using processStep_alike[OF Cons.prems, of gen summ fp chunks s idx w summ' v] a b by simp
    from Cons.IH[OF this, of w1 v1] show ?thesis
      using None dp by (simp add: a b)
  qed
qed

lemma sample_checkpoint_path:
  "getCheckpointPath ''essay.txt'' = ''.checkpoints/essay.checkpoint.json''"
  by code_simp

lemma sample_chunks_small:
  "chunkText sampleDocument 1 OVERLAP_SIZE
    = [''Aa.'', ''Aa.  Bb.'', ''Aa. Bb.  Cc.'', ''Aa. Bb. Cc.  Dd.'', ''Aa. Bb. Cc. Dd.  Ee.'']"
  by code_simp

lemma sample_chunks_default:
  "chunkText sampleDocument DEFAULT_CHUNK_SIZE OVERLAP_SIZE = [sampleDocument]"
  by (simp add: chunkText_def estimateTokens_def sampleDocument_def DEFAULT_CHUNK_SIZE_def)

text \<open>
  A checkpoint that lists the completed indices twice starts the count at 6 of 5 chunks:
  the progress bar throws before any chunk is processed.
\<close>

lemma resume_duplicate_indices_throw:
  "extractLargeDocument namedGen sampleSummarizer ''essay.txt'' smallChunks duplicateWorld
    = (Inl RangeError, duplicateWorld)"
proof -
  let ?chunks = "chunkText sampleDocument (chunkSizeOf smallChunks) OVERLAP_SIZE"
  let ?ck = "resumeCheckpoint\<lparr> ckCompletedChunks := [0, 1, 2, 0, 1, 2] \<rparr>"
  have doc: "files duplicateWorld ''essay.txt'' = Some sampleDocument"
    by (simp add: duplicateWorld_def)
  have n: "length ?chunks = 5"
    by (simp add: chunkSizeOf_def smallChunks_def sample_chunks_small)
  have ld: "loadedCheckpoint ''essay.txt'' smallChunks duplicateWorld = Some ?ck"
    by (simp add: loadedCheckpoint_def resumeOf_def smallChunks_def loadCheckpoint_def
        sample_checkpoint_path duplicateWorld_def)
  have todo: "chunksToProcess (Some ?ck) 5 = [3, 4]"
    by (simp add: chunksToProcess_def upt_rec)
  have dp: "displayProgress (initialProgress (Some ?ck) 5 duplicateWorld) = Some RangeError"
    by (simp add: displayProgress_throws initialProgress_def)
  have "processAll namedGen sampleSummarizer ''essay.txt'' ?chunks (useStreamingOf smallChunks)
      (chunksToProcess (loadedCheckpoint ''essay.txt'' smallChunks duplicateWorld) (length ?chunks))
      (initialProgress (loadedCheckpoint ''essay.txt'' smallChunks duplicateWorld) (length ?chunks)
         duplicateWorld, duplicateWorld) = (Inl RangeError, duplicateWorld)"
    unfolding ld n todo by (rule processAll_throw[OF dp])
  from extractLargeDocument_throws[OF doc refl this] show ?thesis .
qed

lemma saveCheckpoint_now: "now (saveCheckpoint fp p w) = now w"
  by (simp add: saveCheckpoint_def Let_def)

lemma stale_checkpoint_reachable:
  "savedCheckpoints (eventsSince world0
     (snd (extractLargeDocument flakyGen sampleSummarizer ''essay.txt'' smallChunks world0))) ! 1
   = staleCheckpoint"
proof -
  let ?fp = "''essay.txt''"
  let ?chunks = "[''Aa.'', ''Aa.  Bb.'', ''Aa. Bb.  Cc.'', ''Aa. Bb. Cc.  Dd.'', ''Aa. Bb. Cc. Dd.  Ee.'']"
  have doc: "files world0 ?fp = Some sampleDocument"
    by (simp add: world0_def)
  have ch: "?chunks = chunkText sampleDocument (chunkSizeOf smallChunks) OVERLAP_SIZE"
    by (simp add: chunkSizeOf_def smallChunks_def sample_chunks_small)
  have ld: "loadedCheckpoint ?fp smallChunks world0 = None"
    by (simp add: loadedCheckpoint_def loadCheckpoint_def world0_def)
  have todo: "chunksToProcess None (length ?chunks) = 0 # 1 # [2, 3, 4]"
    by (simp add: chunksToProcess_def upt_rec)
  define p0 where "p0 = initialProgress None (length ?chunks) world0"
  \<comment> \<open>chunk 0: four failed calls, then the fallback summary\<close>
  define w1 where "w1 = world0\<lparr> now := 6040,
      events := [Generate 0 0, Sleep 1000, Generate 0 1, Sleep 2000, Generate 0 2, Sleep 3000,
        Generate 0 3] \<rparr>"
  define r0 where "r0 = \<lparr> chunkIndex = 0, result = emptyExtraction ''timeout'', success = False,
      error = Some ''timeout'', processingTime = 10 \<rparr>"
  have fails: "\<forall>r \<le> MAX_RETRIES. outcome (flakyGen False (?chunks ! 0) 0 (length ?chunks) r) = Inl ''timeout''"
    by (simp add: flakyGen_def)
  have pc0: "processChunk flakyGen (?chunks ! 0) 0 (length ?chunks) 0 False world0 = (r0, w1)"
    using processChunk_all_fail[where gen=flakyGen and s=False and c="?chunks ! 0" and idx=0
        and k="length ?chunks" and msg="\<lambda>r. ''timeout''" and w=world0, OF fails]
    by (simp add: flakyGen_def r0_def w1_def world0_def)
  have nos: "\<not> success r0" by (simp add: r0_def)
  define w2 where "w2 = tick 5 (Summarize ''Aa.'') w1"
  have sm: "summarizeFailedChunk sampleSummarizer (?chunks ! 0) w1 = (''fallback summary'', w2)"
    by (simp add: summarizeFailedChunk_def sampleSummarizer_def w2_def)
  define pA where "pA = p0\<lparr> failedChunks := failedChunks p0 + 1,
      chunkResults := chunkResults p0 @ [r0\<lparr> result := (result r0)\<lparr> summary := ''fallback summary'' \<rparr> \<rparr>] \<rparr>"
  define wA where "wA = saveCheckpoint ?fp pA w2"
  have st0: "processStep flakyGen sampleSummarizer ?fp ?chunks False 0 (p0, world0) = (pA, wA)"
    using processStep_failure[OF pc0 nos sm, of ?fp p0] by (simp add: pA_def wA_def)
  \<comment> \<open>chunk 1: one successful call\<close>
  define wB1 where "wB1 = tick 10 (Generate 1 0) wA"
  have pc1: "processChunk flakyGen (?chunks ! 1) 1 (length ?chunks) 0 False wA = (succeeded 1, wB1)"
    using processChunk_success[where gen=flakyGen and s=False and c="?chunks ! 1" and idx=1
        and k="length ?chunks" and r=0 and out="sampleExtraction 1" and w=wA]
    by (simp add: flakyGen_def succeeded_def wB1_def)
  have ok: "success (succeeded 1)" by (simp add: succeeded_def)
  define pB where "pB = pA\<lparr> chunkResults := chunkResults pA @ [succeeded 1],
      completedChunks := completedChunks pA + 1 \<rparr>"
  define wB where "wB = saveCheckpoint ?fp pB wB1"
  have st1: "processStep flakyGen sampleSummarizer ?fp ?chunks False 1 (pA, wA) = (pB, wB)"
    using processStep_success[OF pc1 ok, of sampleSummarizer ?fp pA] by (simp add: pB_def wB_def)
  \<comment> \<open>the rest of the run only appends events\<close>
  obtain p' w' where rest: "processAll flakyGen sampleSummarizer ?fp ?chunks False [2, 3, 4] (pB, wB) = (p', w')"
    by (cases "processAll flakyGen sampleSummarizer ?fp ?chunks False [2, 3, 4] (pB, wB)")
  from processAll_facts[OF rest] obtain evs where evs: "events w' = events wB @ evs"
    by blast
  from clearCheckpoint_events[of ?fp w'] obtain evs' where evs': "events (clearCheckpoint ?fp w') = events w' @ evs'"
    by blast
  have dp0: "displayProgress p0 = None"
    by (rule displayProgress_ok) (simp add: p0_def initialProgress_def)
  have dpA: "displayProgress pA = None"
    by (rule displayProgress_ok) (simp add: pA_def p0_def initialProgress_def)
  have all: "processAll flakyGen sampleSummarizer ?fp ?chunks (useStreamingOf smallChunks)
      (chunksToProcess (loadedCheckpoint ?fp smallChunks world0) (length ?chunks))
      (initialProgress (loadedCheckpoint ?fp smallChunks world0) (length ?chunks) world0, world0) = (p', w')"
  proof -
    have "processAll flakyGen sampleSummarizer ?fp ?chunks False (0 # 1 # [2, 3, 4]) (p0, world0)
        = processAll flakyGen sampleSummarizer ?fp ?chunks False [2, 3, 4] (pB, wB)"
      by (simp only: processAll_Cons[OF dp0] processAll_Cons[OF dpA] st0 st1)
    moreover have "useStreamingOf smallChunks = False"
      by (simp add: useStreamingOf_def smallChunks_def)
    ultimately show ?thesis
      unfolding ld todo p0_def[symmetric] using rest by (simp only:)
  qed
  have run: "snd (extractLargeDocument flakyGen sampleSummarizer ?fp smallChunks world0) = w'
      \<or> snd (extractLargeDocument flakyGen sampleSummarizer ?fp smallChunks world0)
          = clearCheckpoint ?fp w'"
    using extractLargeDocument_world[OF doc ch all] .
  have pBr: "chunkResults pB = [failed0, succeeded 1]" "totalChunks pB = 5"
    by (simp_all add: pB_def pA_def p0_def initialProgress_def r0_def failed0_def emptyExtraction_def)
  have nowB: "now wB1 = 6055"
    by (simp add: wB1_def wA_def w2_def w1_def tick_def saveCheckpoint_now)
  have ckB: "\<lparr> filePath = ?fp, ckTotalChunks = totalChunks pB,
        ckCompletedChunks = map chunkIndex (filter success (chunkResults pB)),
        ckChunkResults = chunkResults pB, timestamp = now wB1 \<rparr> = staleCheckpoint"
    by (simp add: pBr nowB staleCheckpoint_def succeeded_def failed0_def)
  have ev2: "savedCheckpoints (events w2) = []"
    by (simp add: w2_def w1_def tick_def)
  have evA: "savedCheckpoints (events wA)
      = [\<lparr> filePath = ?fp, ckTotalChunks = totalChunks pA,
            ckCompletedChunks = map chunkIndex (filter success (chunkResults pA)),
            ckChunkResults = chunkResults pA, timestamp = now w2 \<rparr>]"
    unfolding wA_def by (simp add: saveCheckpoint_events savedCheckpoints_append ev2)
  have evB1: "savedCheckpoints (events wB1) = savedCheckpoints (events wA)"
    unfolding wB1_def by (simp add: tick_def savedCheckpoints_append)
  have evB: "savedCheckpoints (events wB)
      = [\<lparr> filePath = ?fp, ckTotalChunks = totalChunks pA,
            ckCompletedChunks = map chunkIndex (filter success (chunkResults pA)),
            ckChunkResults = chunkResults pA, timestamp = now w2 \<rparr>, staleCheckpoint]"
    unfolding wB_def by (simp only: saveCheckpoint_events savedCheckpoints_append evB1 evA ckB
        savedCheckpoints.simps append.simps)
  have a: "eventsSince world0 w' = events wB @ evs"
    by (simp add: eventsSince_def evs world0_def)
  have b: "eventsSince world0 (clearCheckpoint ?fp w') = events wB @ evs @ evs'"
    by (simp add: eventsSince_def evs evs' world0_def)
  from run show ?thesis
  proof
    assume e: "snd (extractLargeDocument flakyGen sampleSummarizer ?fp smallChunks world0) = w'"
    show ?thesis unfolding e a by (simp add: savedCheckpoints_append evB)
  next
    assume e: "snd (extractLargeDocument flakyGen sampleSummarizer ?fp smallChunks world0)
        = clearCheckpoint ?fp w'"
    show ?thesis unfolding e b by (simp add: savedCheckpoints_append evB)
  qed
qed

subsection \<open>Chunking\<close>

text \<open>
  Claim C2 says that the chunks, without the overlap, give back the sentence sequence of
  every document with no sentence dropped. By \<open>chunkText_parts\<close> every sentence that the
  pattern matches reaches exactly one chunk, in order. The pattern matches only text that
  ends in a terminator (\<open>matchSentences_tiles\<close>), so the text after the last terminator
  reaches no chunk: the document \<open>Alpha beta. Gamma delta\<close> with a budget of 2 tokens
  yields the single chunk \<open>Alpha beta.\<close> and its second sentence is lost. The paths
  \<open>return [text]\<close> and \<open>|| [text]\<close> of the same function keep such text.
\<close>

theorem chunkText_drops_unterminated_tail:
  "chunkText ''Alpha beta. Gamma delta'' 2 OVERLAP_SIZE = [''Alpha beta.'']"
  by code_simp

subsection \<open>Retries and the fallback summary\<close>

text \<open>
  Claim C4, in three parts. For every chunk, \<open>processChunk\<close> makes the first call and at
  most \<open>MAX_RETRIES = 3\<close> retries, retry number \<open>j + 1\<close> preceded by a sleep of
  \<open>1000 * (j + 1)\<close> ms, and nothing else. When the calls \<open>0, \<dots>, k - 1\<close> fail and call
  \<open>k \<le> 3\<close> succeeds, it makes exactly these \<open>k\<close> retries and returns the object of call
  \<open>k\<close> with \<open>success = true\<close>. When the first call and the three retries all fail, it
  returns a result with \<open>success = false\<close>, empty \<open>keyTakeaway\<close>, \<open>companies\<close>,
  \<open>concepts\<close> and \<open>quotes\<close>, after sleeps of 1000, 2000 and 3000 ms; the extractor then
  calls the fallback summarisation, stores its text in the \<open>summary\<close> of that chunk
  result, and counts the chunk as failed.
\<close>

theorem processChunk_retries_then_fallback:
  "(\<exists>n \<le> MAX_RETRIES.
      eventsSince w (snd (processChunk gen (chunks ! idx) idx (length chunks) 0 s w))
        = concat (map (\<lambda>j. [Generate idx j, Sleep (1000 * (j + 1))]) [0..<n]) @ [Generate idx n])
   \<and> (k \<le> MAX_RETRIES
        \<and> (\<forall>j < k. isl (outcome (gen s (chunks ! idx) idx (length chunks) j)))
        \<and> outcome (gen s (chunks ! idx) idx (length chunks) k) = Inr out \<longrightarrow>
          fst (processChunk gen (chunks ! idx) idx (length chunks) 0 s w)
            = \<lparr> chunkIndex = idx, result = out, success = True, error = None,
                processingTime = duration (gen s (chunks ! idx) idx (length chunks) k) \<rparr>
        \<and> eventsSince w (snd (processChunk gen (chunks ! idx) idx (length chunks) 0 s w))
            = concat (map (\<lambda>j. [Generate idx j, Sleep (1000 * (j + 1))]) [0..<k])
              @ [Generate idx k])
   \<and> ((\<forall>r \<le> MAX_RETRIES. outcome (gen s (chunks ! idx) idx (length chunks) r) = Inl (msg r)) \<longrightarrow>
          fst (processChunk gen (chunks ! idx) idx (length chunks) 0 s w)
            = \<lparr> chunkIndex = idx,
                result = \<lparr> keyTakeaway = [], companies = [],
                           concepts = \<lparr> business = [], technical = [] \<rparr>, quotes = [],
                           summary = ''[Extraction failed: '' @ msg 3 @ '']'' \<rparr>,
                success = False, error = Some (msg 3),
                processingTime = duration (gen s (chunks ! idx) idx (length chunks) 3) \<rparr>
        \<and> eventsSince w (snd (processChunk gen (chunks ! idx) idx (length chunks) 0 s w))
            = [Generate idx 0, Sleep 1000, Generate idx 1, Sleep 2000, Generate idx 2, Sleep 3000,
               Generate idx 3]
        \<and> chunkResults (fst (processStep gen summ fp chunks s idx (p, w)))
            = chunkResults p @
              [\<lparr> chunkIndex = idx,
                 result = \<lparr> keyTakeaway = [], companies = [],
                            concepts = \<lparr> business = [], technical = [] \<rparr>, quotes = [],
                            summary = fst (summarizeFailedChunk summ (chunks ! idx) w) \<rparr>,
                 success = False, error = Some (msg 3),
                 processingTime = duration (gen s (chunks ! idx) idx (length chunks) 3) \<rparr>]
        \<and> failedChunks (fst (processStep gen summ fp chunks s idx (p, w))) = failedChunks p + 1
        \<and> Summarize (chunks ! idx)
            \<in> set (eventsSince w (snd (processStep gen summ fp chunks s idx (p, w)))))"
proof -
  let ?c = "chunks ! idx" and ?k = "length chunks"
  have shape: "\<exists>n \<le> MAX_RETRIES. eventsSince w (snd (processChunk gen ?c idx ?k 0 s w))
      = concat (map (\<lambda>j. [Generate idx j, Sleep (1000 * (j + 1))]) [0..<n]) @ [Generate idx n]"
    using processChunk_trace[of 0 gen ?c idx ?k s w]
    by (auto simp: eventsSince_def attemptEvents_def)
  have recover: "fst (processChunk gen ?c idx ?k 0 s w)
        = \<lparr> chunkIndex = idx, result = out, success = True, error = None,
            processingTime = duration (gen s ?c idx ?k k) \<rparr>
      \<and> eventsSince w (snd (processChunk gen ?c idx ?k 0 s w))
        = concat (map (\<lambda>j. [Generate idx j, Sleep (1000 * (j + 1))]) [0..<k]) @ [Generate idx k]"
    if "k \<le> MAX_RETRIES" "\<forall>j < k. isl (outcome (gen s ?c idx ?k j))"
      "outcome (gen s ?c idx ?k k) = Inr out"
    using processChunk_recovers[where gen=gen and s=s and c="?c" and idx=idx and n="?k"
        and r=0 and k=k and out=out and w=w] that
    by (simp add: eventsSince_def attemptEvents_def)
  have exhaust: "fst (processChunk gen ?c idx ?k 0 s w)
        = \<lparr> chunkIndex = idx,
            result = \<lparr> keyTakeaway = [], companies = [],
                       concepts = \<lparr> business = [], technical = [] \<rparr>, quotes = [],
                       summary = ''[Extraction failed: '' @ msg 3 @ '']'' \<rparr>,
            success = False, error = Some (msg 3),
            processingTime = duration (gen s ?c idx ?k 3) \<rparr>
      \<and> eventsSince w (snd (processChunk gen ?c idx ?k 0 s w))
        = [Generate idx 0, Sleep 1000, Generate idx 1, Sleep 2000, Generate idx 2, Sleep 3000,
           Generate idx 3]
      \<and> chunkResults (fst (processStep gen summ fp chunks s idx (p, w)))
        = chunkResults p @
          [\<lparr> chunkIndex = idx,
             result = \<lparr> keyTakeaway = [], companies = [],
                        concepts = \<lparr> business = [], technical = [] \<rparr>, quotes = [],
                        summary = fst (summarizeFailedChunk summ ?c w) \<rparr>,
             success = False, error = Some (msg 3),
             processingTime = duration (gen s ?c idx ?k 3) \<rparr>]
      \<and> failedChunks (fst (processStep gen summ fp chunks s idx (p, w))) = failedChunks p + 1
      \<and> Summarize ?c \<in> set (eventsSince w (snd (processStep gen summ fp chunks s idx (p, w))))"
    if fails: "\<forall>r \<le> MAX_RETRIES. outcome (gen s ?c idx ?k r) = Inl (msg r)"
  proof -
    let ?r = "\<lparr> chunkIndex = idx, result = emptyExtraction (msg 3), success = False,
        error = Some (msg 3), processingTime = duration (gen s ?c idx ?k 3) \<rparr>"
    let ?evs = "[Generate idx 0, Sleep 1000, Generate idx 1, Sleep 2000, Generate idx 2,
        Sleep 3000, Generate idx 3]"
    obtain w1 where pc: "processChunk gen ?c idx ?k 0 s w = (?r, w1)"
      and ev1: "events w1 = events w @ ?evs"
      using processChunk_all_fail[where gen=gen and s=s and c="?c" and idx=idx and k="?k"
          and msg=msg and w=w, OF fails] by simp
    obtain t w2 where sm: "summarizeFailedChunk summ ?c w1 = (t, w2)"
      by (cases "summarizeFailedChunk summ ?c w1")
    have t: "t = fst (summarizeFailedChunk summ ?c w)"
      using sm summarizeFailedChunk_text[of summ ?c w1 w] by simp
    have ev2: "events w2 = events w1 @ [Summarize ?c]"
      using sm by (rule summarizeFailedChunk_events)
    have nos: "\<not> success ?r" by simp
    note st = processStep_failure[OF pc nos sm, of fp p]
    have "Summarize ?c \<in> set (eventsSince w (snd (processStep gen summ fp chunks s idx (p, w))))"
      unfolding st by (simp add: eventsSince_def saveCheckpoint_events ev2 ev1)
    moreover have "chunkResults (fst (processStep gen summ fp chunks s idx (p, w)))
        = chunkResults p @ [?r\<lparr> result := (result ?r)\<lparr> summary := t \<rparr> \<rparr>]"
      unfolding st by simp
    moreover have "failedChunks (fst (processStep gen summ fp chunks s idx (p, w))) = failedChunks p + 1"
      unfolding st by simp
    ultimately show ?thesis
      using pc ev1 t by (simp add: eventsSince_def emptyExtraction_def)
  qed
  from shape recover exhaust show ?thesis by blast
qed

text \<open>
  The theorem at a generator whose third call succeeds, and at one that always times out.
\<close>

theorem processChunk_retries_then_fallback_witness:
  "fst (processChunk recoveringGen ''Aa.'' 0 1 0 False world0)
     = \<lparr> chunkIndex = 0, result = sampleExtraction 0, success = True, error = None,
         processingTime = 30 \<rparr>
   \<and> eventsSince world0 (snd (processChunk recoveringGen ''Aa.'' 0 1 0 False world0))
     = [Generate 0 0, Sleep 1000, Generate 0 1, Sleep 2000, Generate 0 2]
   \<and> fst (processChunk failingGen ''Aa.'' 0 1 0 False world0)
     = \<lparr> chunkIndex = 0,
         result = \<lparr> keyTakeaway = [], companies = [],
                    concepts = \<lparr> business = [], technical = [] \<rparr>, quotes = [],
                    summary = ''[Extraction failed: timeout]'' \<rparr>,
         success = False, error = Some ''timeout'', processingTime = 10 \<rparr>
   \<and> eventsSince world0 (snd (processChunk failingGen ''Aa.'' 0 1 0 False world0))
     = [Generate 0 0, Sleep 1000, Generate 0 1, Sleep 2000, Generate 0 2, Sleep 3000, Generate 0 3]
   \<and> chunkResults (fst (processStep failingGen sampleSummarizer ''essay.txt'' [''Aa.''] False 0
        (initialProgress None 1 world0, world0)))
     = [\<lparr> chunkIndex = 0,
          result = \<lparr> keyTakeaway = [], companies = [],
                     concepts = \<lparr> business = [], technical = [] \<rparr>, quotes = [],
                     summary = ''fallback summary'' \<rparr>,
          success = False, error = Some ''timeout'', processingTime = 10 \<rparr>]"
proof -
  have k: "(2::nat) \<le> MAX_RETRIES" by (simp add: MAX_RETRIES_def)
  have fl: "\<forall>j < 2. isl (outcome (recoveringGen False ([''Aa.''] ! 0) 0 (length [''Aa.'']) j))"
    by (simp add: recoveringGen_def)
  have ok: "outcome (recoveringGen False ([''Aa.''] ! 0) 0 (length [''Aa.'']) 2)
      = Inr (sampleExtraction 0)"
    by (simp add: recoveringGen_def)
  have d2: "duration (recoveringGen False ''Aa.'' 0 (Suc 0) 2) = 30"
    by (simp add: recoveringGen_def)
  have h: "\<forall>r \<le> MAX_RETRIES.
      outcome (failingGen False ([''Aa.''] ! 0) 0 (length [''Aa.'']) r) = Inl ''timeout''"
    by (simp add: failingGen_def)
  have d: "duration (failingGen False ''Aa.'' 0 (Suc 0) 3) = 10"
    by (simp add: failingGen_def)
  have t: "fst (summarizeFailedChunk sampleSummarizer ''Aa.'' world0) = ''fallback summary''"
    by (simp add: summarizeFailedChunk_def sampleSummarizer_def)
  have recovered:
    "fst (processChunk recoveringGen ''Aa.'' 0 1 0 False world0)
       = \<lparr> chunkIndex = 0, result = sampleExtraction 0, success = True, error = None,
           processingTime = 30 \<rparr>
     \<and> eventsSince world0 (snd (processChunk recoveringGen ''Aa.'' 0 1 0 False world0))
       = [Generate 0 0, Sleep 1000, Generate 0 1, Sleep 2000, Generate 0 2]"
    using processChunk_retries_then_fallback[where gen=recoveringGen and s=False and chunks="[''Aa.'']" and idx=0
        and k=2 and out="sampleExtraction 0" and w=world0,
        THEN conjunct2, THEN conjunct1, THEN mp, OF conjI[OF k conjI[OF fl ok]]]
    by (simp add: d2 upt_rec)
  have exhausted:
    "fst (processChunk failingGen ''Aa.'' 0 1 0 False world0)
       = \<lparr> chunkIndex = 0,
           result = \<lparr> keyTakeaway = [], companies = [],
                      concepts = \<lparr> business = [], technical = [] \<rparr>, quotes = [],
                      summary = ''[Extraction failed: timeout]'' \<rparr>,
           success = False, error = Some ''timeout'', processingTime = 10 \<rparr>
     \<and> eventsSince world0 (snd (processChunk failingGen ''Aa.'' 0 1 0 False world0))
       = [Generate 0 0, Sleep 1000, Generate 0 1, Sleep 2000, Generate 0 2, Sleep 3000, Generate 0 3]
     \<and> chunkResults (fst (processStep failingGen sampleSummarizer ''essay.txt'' [''Aa.''] False 0
          (initialProgress None 1 world0, world0)))
       = [\<lparr> chunkIndex = 0,
            result = \<lparr> keyTakeaway = [], companies = [],
                       concepts = \<lparr> business = [], technical = [] \<rparr>, quotes = [],
                       summary = ''fallback summary'' \<rparr>,
            success = False, error = Some ''timeout'', processingTime = 10 \<rparr>]"
    using processChunk_retries_then_fallback[where gen=failingGen and s=False and chunks="[''Aa.'']" and idx=0
        and msg="\<lambda>r. ''timeout''" and w=world0 and summ=sampleSummarizer and fp="''essay.txt''"
        and p="initialProgress None 1 world0",
        THEN conjunct2, THEN conjunct2, THEN mp, OF h]
    by (simp add: d t initialProgress_def)
  from recovered exhausted show ?thesis by (intro conjI) simp_all
qed

subsection \<open>Resuming from a checkpoint\<close>

text \<open>
  Claim C5: when the document has five chunks and the run starts from a checkpoint whose
  completed indices are 0, 1 and 2, each listed once, chunk processing is started for the
  indices 3 and 4, in this order, and for no other index, and the run returns the
  aggregate of the checkpoint's stored results, unchanged, followed by the results of
  chunks 3 and 4. The aggregate is spelled out field by field over the successful ones
  among these results: the quotes in order, the summaries joined by a space, the first
  three summaries as the key takeaway, and the companies and concepts in the order of
  their first occurrence. The indices are required to be distinct: the count of completed
  chunks starts at the length of the list, and a list that repeats them can make the
  progress bar throw (\<open>resume_duplicate_indices_throw\<close>).
\<close>

theorem resume_processes_pending_chunks:
  assumes doc: "files w fp = Some document"
    and ch: "chunks = chunkText document (chunkSizeOf options) OVERLAP_SIZE"
    and five: "length chunks = 5"
    and ck: "loadedCheckpoint fp options w = Some ck"
    and comp: "set (ckCompletedChunks ck) = {0, 1, 2}"
    and once: "distinct (ckCompletedChunks ck)"
    and new: "new = map (\<lambda>i. fst (processChunk gen (chunks ! i) i 5 0 (useStreamingOf options) w))
                      [3, 4]"
    and kept: "kept = filter success (ckChunkResults ck @ new)"
    and sums: "summaries = filter (\<lambda>t. t \<noteq> []) (map (\<lambda>r. summary (result r)) kept)"
  shows "\<exists>w'.
      extractLargeDocument gen summ fp options w
        = (Inr \<lparr> keyTakeaway =
                   (if summaries = [] then ''Unable to extract key takeaway from document.''
                    else take 250 (join '' '' (take 3 summaries))),
                 companies = rev (remdups (rev (concat (map (\<lambda>r. companies (result r)) kept)))),
                 concepts =
                   \<lparr> business =
                       rev (remdups (rev (concat (map (\<lambda>r. business (concepts (result r))) kept)))),
                     technical =
                       rev (remdups (rev (concat (map (\<lambda>r. technical (concepts (result r))) kept)))) \<rparr>,
                 quotes = concat (map (\<lambda>r. quotes (result r)) kept),
                 summary = join '' '' summaries \<rparr>, w')
    \<and> startedChunks (eventsSince w w') = [3, 4]
    \<and> set (generatedChunks (eventsSince w w')) = {3, 4}"
proof -
  let ?p0 = "initialProgress (loadedCheckpoint fp options w) (length chunks) w"
  have upt5: "[0..<5] = [0, 1, 2, 3, 4::nat]" by (simp add: upt_rec)
  have todo: "chunksToProcess (loadedCheckpoint fp options w) (length chunks) = [3, 4]"
    using five ck comp by (simp add: chunksToProcess_def upt5)
  have res0: "chunkResults ?p0 = ckChunkResults ck"
    using ck by (simp add: initialProgress_def)
  have "completedChunks ?p0 = 3"
    using ck completed_three[OF comp once] by (simp add: initialProgress_def)
  then have room: "completedChunks ?p0
      + length (chunksToProcess (loadedCheckpoint fp options w) (length chunks)) \<le> length chunks"
    unfolding todo using five by simp
  from extractLargeDocument_ends[OF doc ch refl refl room, of gen summ]
  obtain w' where
    g: "extractLargeDocument gen summ fp options w
          = (Inr (reduceResults (chunkResults ?p0 @
                map (\<lambda>i. fst (processChunk gen (chunks ! i) i (length chunks) 0
                                 (useStreamingOf options) w))
                  (chunksToProcess (loadedCheckpoint fp options w) (length chunks)))), w')"
      "startedChunks (eventsSince w w')
         = chunksToProcess (loadedCheckpoint fp options w) (length chunks)"
      "set (generatedChunks (eventsSince w w'))
         = set (chunksToProcess (loadedCheckpoint fp options w) (length chunks))"
    by blast
  have f: "extractLargeDocument gen summ fp options w
          = (Inr (reduceResults (ckChunkResults ck @ new)), w')"
      "startedChunks (eventsSince w w') = [3, 4]"
      "set (generatedChunks (eventsSince w w')) = {3, 4}"
    using g unfolding todo res0 new by (simp_all add: five)
  show ?thesis
    using f reduceResults_fields[OF kept sums] by (intro exI[of _ w']) simp
qed

text \<open>
  The theorem at the sample document cut into its five chunks, with results that name
  their chunk.
\<close>

theorem resume_processes_pending_chunks_witness:
  "\<exists>w'.
      extractLargeDocument namedGen sampleSummarizer ''essay.txt'' smallChunks resumeWorld
        = (Inr \<lparr> keyTakeaway = ''zero one two'',
                 companies = [''Acme'', ''Bolt'', ''Cato'', ''Dyne'', ''Echo'', ''Fern''],
                 concepts = \<lparr> business = [''pricing''], technical = [''cache''] \<rparr>,
                 quotes = [\<lparr> quote = ''q0'', speaker = None \<rparr>, \<lparr> quote = ''q1'', speaker = None \<rparr>,
                           \<lparr> quote = ''q2'', speaker = None \<rparr>, \<lparr> quote = ''q3'', speaker = None \<rparr>,
                           \<lparr> quote = ''q4'', speaker = None \<rparr>],
                 summary = ''zero one two three four'' \<rparr>, w')
    \<and> startedChunks (eventsSince resumeWorld w') = [3, 4]
    \<and> set (generatedChunks (eventsSince resumeWorld w')) = {3, 4}"
proof -
  let ?chunks = "chunkText sampleDocument (chunkSizeOf smallChunks) OVERLAP_SIZE"
  have h1: "files resumeWorld ''essay.txt'' = Some sampleDocument"
    by (simp add: resumeWorld_def)
  have h2: "length ?chunks = 5"
    by (simp add: chunkSizeOf_def smallChunks_def sample_chunks_small)
  have h3: "loadedCheckpoint ''essay.txt'' smallChunks resumeWorld = Some resumeCheckpoint"
    by (simp add: loadedCheckpoint_def resumeOf_def smallChunks_def loadCheckpoint_def
        sample_checkpoint_path resumeWorld_def)
  have h4: "set (ckCompletedChunks resumeCheckpoint) = {0, 1, 2}"
    by (auto simp: resumeCheckpoint_def)
  have h5: "distinct (ckCompletedChunks resumeCheckpoint)"
    by (simp add: resumeCheckpoint_def)
  have new: "[named 3, named 4]
      = map (\<lambda>i. fst (processChunk namedGen (?chunks ! i) i 5 0 (useStreamingOf smallChunks)
                        resumeWorld)) [3, 4]"
    by (simp add: processChunk_success[where out="namedExtraction 3"]
        processChunk_success[where out="namedExtraction 4"] namedGen_def named_def)
  have kept: "[named 0, named 1, named 2, named 3, named 4]
      = filter success (ckChunkResults resumeCheckpoint @ [named 3, named 4])"
    by (simp add: resumeCheckpoint_def named_def)
  have sums: "[''zero'', ''one'', ''two'', ''three'', ''four'']
      = filter (\<lambda>t. t \<noteq> [])
          (map (\<lambda>r. summary (result r)) [named 0, named 1, named 2, named 3, named 4])"
    by (simp add: named_def namedExtraction_def)
  have j3: "take 250 (join '' '' (take 3 [''zero'', ''one'', ''two'', ''three'', ''four'']))
      = ''zero one two''"
    by code_simp
  have j5: "join '' '' [''zero'', ''one'', ''two'', ''three'', ''four'']
      = ''zero one two three four''"
    by code_simp
  have co: "rev (remdups (rev (concat (map (\<lambda>r. companies (result r))
        [named 0, named 1, named 2, named 3, named 4]))))
      = [''Acme'', ''Bolt'', ''Cato'', ''Dyne'', ''Echo'', ''Fern'']"
    by (simp add: named_def namedExtraction_def)
  have bu: "rev (remdups (rev (concat (map (\<lambda>r. business (concepts (result r)))
        [named 0, named 1, named 2, named 3, named 4])))) = [''pricing'']"
    by (simp add: named_def namedExtraction_def)
  have te: "rev (remdups (rev (concat (map (\<lambda>r. technical (concepts (result r)))
        [named 0, named 1, named 2, named 3, named 4])))) = [''cache'']"
    by (simp add: named_def namedExtraction_def)
  have qu: "concat (map (\<lambda>r. quotes (result r)) [named 0, named 1, named 2, named 3, named 4])
      = [\<lparr> quote = ''q0'', speaker = None \<rparr>, \<lparr> quote = ''q1'', speaker = None \<rparr>,
         \<lparr> quote = ''q2'', speaker = None \<rparr>, \<lparr> quote = ''q3'', speaker = None \<rparr>,
         \<lparr> quote = ''q4'', speaker = None \<rparr>]"
    by (simp add: named_def namedExtraction_def)
  from resume_processes_pending_chunks[OF h1 refl h2 h3 h4 h5 new kept sums, of sampleSummarizer] show ?thesis
    unfolding j3 j5 co bu te qu by simp
qed

subsection \<open>The checkpoint invariant\<close>

text \<open>
  Claim C7, as stated: every checkpoint that \<open>saveCheckpoint\<close> writes has its completed
  indices below \<open>totalChunks\<close>. A run on the sample document with \<open>chunkSize = 1\<close> (five
  chunks) whose chunk 0 fails writes \<open>staleCheckpoint\<close> after chunk 1; when the process
  stops there, the file stays. A second run with the default chunk size (one chunk) that
  resumes from it writes a checkpoint with \<open>totalChunks = 1\<close> and completed indices
  \<open>[1, 0]\<close>, and then throws while it prints the progress of 2 chunks out of 1.
\<close>

theorem stale_checkpoint_breaks_bound:
  "savedCheckpoints (eventsSince world0
     (snd (extractLargeDocument flakyGen sampleSummarizer ''essay.txt'' smallChunks world0))) ! 1
     = staleCheckpoint
   \<and> map ckTotalChunks (savedCheckpoints (eventsSince staleWorld
      (snd (extractLargeDocument steadyGen sampleSummarizer ''essay.txt'' defaultOptions staleWorld))))
     = [1]
   \<and> map ckCompletedChunks (savedCheckpoints (eventsSince staleWorld
      (snd (extractLargeDocument steadyGen sampleSummarizer ''essay.txt'' defaultOptions staleWorld))))
     = [[1, 0]]
   \<and> \<not> list_all checkpointInvariant (savedCheckpoints (eventsSince staleWorld
      (snd (extractLargeDocument steadyGen sampleSummarizer ''essay.txt'' defaultOptions staleWorld))))"
proof -
  let ?fp = "''essay.txt''"
  have doc: "files staleWorld ?fp = Some sampleDocument"
    by (simp add: staleWorld_def)
  have ch: "[sampleDocument] = chunkText sampleDocument (chunkSizeOf defaultOptions) OVERLAP_SIZE"
    by (simp add: chunkSizeOf_def defaultOptions_def sample_chunks_default)
  have ld: "loadedCheckpoint ?fp defaultOptions staleWorld = Some staleCheckpoint"
    by (simp add: loadedCheckpoint_def resumeOf_def defaultOptions_def loadCheckpoint_def
        sample_checkpoint_path staleWorld_def)
  have todo: "chunksToProcess (Some staleCheckpoint) (length [sampleDocument]) = [0]"
    by (simp add: chunksToProcess_def staleCheckpoint_def)
  define p0 where "p0 = initialProgress (Some staleCheckpoint) (length [sampleDocument]) staleWorld"
  define w1 where "w1 = tick 10 (Generate 0 0) staleWorld"
  define p1 where "p1 = p0\<lparr> chunkResults := chunkResults p0 @ [succeeded 0],
      completedChunks := completedChunks p0 + 1 \<rparr>"
  have pc: "processChunk steadyGen ([sampleDocument] ! 0) 0 (length [sampleDocument]) 0 False staleWorld
      = (succeeded 0, w1)"
    using processChunk_success[where gen=steadyGen and s=False and c=sampleDocument and idx=0
        and k=1 and r=0 and out="sampleExtraction 0" and w=staleWorld]
    by (simp add: steadyGen_def succeeded_def w1_def)
  have ok: "success (succeeded 0)" by (simp add: succeeded_def)
  have dp0: "displayProgress p0 = None"
    by (rule displayProgress_ok) (simp add: p0_def initialProgress_def staleCheckpoint_def)
  have dp1: "displayProgress p1 = Some RangeError"
    by (simp add: displayProgress_throws p1_def p0_def initialProgress_def staleCheckpoint_def)
  have s: "useStreamingOf defaultOptions = False"
    by (simp add: useStreamingOf_def defaultOptions_def)
  have "processAll steadyGen sampleSummarizer ?fp [sampleDocument] False [0] (p0, staleWorld)
      = (Inr p1, saveCheckpoint ?fp p1 w1)"
    using processStep_success[OF pc ok, of sampleSummarizer ?fp p0]
    by (simp add: dp0 p1_def)
  then have st: "processAll steadyGen sampleSummarizer ?fp [sampleDocument]
      (useStreamingOf defaultOptions)
      (chunksToProcess (loadedCheckpoint ?fp defaultOptions staleWorld) (length [sampleDocument]))
      (initialProgress (loadedCheckpoint ?fp defaultOptions staleWorld) (length [sampleDocument]) staleWorld,
       staleWorld) = (Inr p1, saveCheckpoint ?fp p1 w1)"
    unfolding ld todo s p0_def[symmetric] .
  have run: "snd (extractLargeDocument steadyGen sampleSummarizer ?fp defaultOptions staleWorld)
      = saveCheckpoint ?fp p1 w1"
    using extractLargeDocument_throws_last[OF doc ch st dp1] by simp
  have p1r: "chunkResults p1 = [failed0, succeeded 1, succeeded 0]" "totalChunks p1 = 1"
    by (simp_all add: p1_def p0_def initialProgress_def staleCheckpoint_def)
  have saved: "savedCheckpoints (eventsSince staleWorld (saveCheckpoint ?fp p1 w1))
      = [\<lparr> filePath = ?fp, ckTotalChunks = 1, ckCompletedChunks = [1, 0],
           ckChunkResults = [failed0, succeeded 1, succeeded 0], timestamp = 10 \<rparr>]"
    by (simp add: eventsSince_def clearCheckpoint_def saveCheckpoint_def Let_def w1_def tick_def
        staleWorld_def p1r failed0_def succeeded_def)
  show ?thesis
    unfolding run saved using stale_checkpoint_reachable by (simp add: checkpointInvariant_def)
qed

text \<open>
  Claim C7, amended: in every checkpoint that a run writes, the completed indices are
  exactly the indices of the stored results with \<open>success = true\<close>; they lie below
  \<open>totalChunks\<close> whenever the run starts without a checkpoint, or from one whose
  successful results all have an index below the current number of chunks.
\<close>

theorem saved_checkpoints_invariant:
  "(\<forall>ck \<in> set (savedCheckpoints
        (eventsSince w (snd (extractLargeDocument gen summ fp options w)))).
      set (ckCompletedChunks ck) = chunkIndex ` {r \<in> set (ckChunkResults ck). success r})
   \<and> (checkpointFits fp options w \<longrightarrow>
        (\<forall>ck \<in> set (savedCheckpoints
            (eventsSince w (snd (extractLargeDocument gen summ fp options w)))).
          checkpointInvariant ck))"
proof (cases "files w fp")
  case None
  then show ?thesis
    by (simp add: extractLargeDocument_def eventsSince_def)
next
  case (Some document)
  let ?chunks = "chunkText document (chunkSizeOf options) OVERLAP_SIZE"
  let ?p0 = "initialProgress (loadedCheckpoint fp options w) (length ?chunks) w"
  let ?todo = "chunksToProcess (loadedCheckpoint fp options w) (length ?chunks)"
  let ?w' = "snd (extractLargeDocument gen summ fp options w)"
  from extractLargeDocument_saved[OF Some refl refl refl, where gen=gen and summ=summ and options=options]
  obtain rs where
    f: "set (map chunkIndex rs) \<subseteq> set ?todo"
      "\<forall>ck \<in> set (savedCheckpoints (eventsSince w ?w')).
          \<exists>k \<le> length rs. stepCheckpoint ck (length ?chunks) (chunkResults ?p0 @ take k rs)"
    by blast
  have new: "chunkIndex r < length ?chunks" if "r \<in> set rs" for r
  proof -
    have "chunkIndex r \<in> set ?todo" using that f(1) by auto
    then show ?thesis using chunksToProcess_bound by blast
  qed
  have a: "set (ckCompletedChunks ck) = chunkIndex ` {r \<in> set (ckChunkResults ck). success r}"
    if "ck \<in> set (savedCheckpoints (eventsSince w ?w'))" for ck
    using f(2) that stepCheckpoint_completed by blast
  have b: "checkpointInvariant ck"
    if fits: "checkpointFits fp options w" and "ck \<in> set (savedCheckpoints (eventsSince w ?w'))" for ck
  proof -
    from f(2) that(2) obtain k where
      k: "stepCheckpoint ck (length ?chunks) (chunkResults ?p0 @ take k rs)" by blast
    have old: "\<forall>r \<in> set (chunkResults ?p0). success r \<longrightarrow> chunkIndex r < length ?chunks"
      using fits Some
      by (auto simp: checkpointFits_def chunksOf_def initialProgress_def split: option.splits)
    have "\<forall>r \<in> set (chunkResults ?p0 @ take k rs). success r \<longrightarrow> chunkIndex r < length ?chunks"
      using old new by (auto dest: in_set_takeD)
    with k show ?thesis by (rule stepCheckpoint_invariant)
  qed
  show ?thesis
    using a b by blast
qed

text \<open>The theorem at a run that starts without a checkpoint.\<close>

theorem saved_checkpoints_invariant_witness:
  "checkpointFits ''essay.txt'' smallChunks world0
   \<and> length (savedCheckpoints (eventsSince world0
        (snd (extractLargeDocument flakyGen sampleSummarizer ''essay.txt'' smallChunks world0)))) = 5
   \<and> list_all checkpointInvariant (savedCheckpoints (eventsSince world0
        (snd (extractLargeDocument flakyGen sampleSummarizer ''essay.txt'' smallChunks world0))))
   \<and> list_all (\<lambda>ck. set (ckCompletedChunks ck) = chunkIndex ` {r \<in> set (ckChunkResults ck). success r})
        (savedCheckpoints (eventsSince world0
          (snd (extractLargeDocument flakyGen sampleSummarizer ''essay.txt'' smallChunks world0))))"
proof -
  have fits: "checkpointFits ''essay.txt'' smallChunks world0"
    by (simp add: checkpointFits_def loadedCheckpoint_def loadCheckpoint_def world0_def)
  have doc: "files world0 ''essay.txt'' = Some sampleDocument"
    by (simp add: world0_def)
  have n: "length (chunksToProcess (loadedCheckpoint ''essay.txt'' smallChunks world0)
      (length (chunkText sampleDocument (chunkSizeOf smallChunks) OVERLAP_SIZE))) = 5"
    by (simp add: loadedCheckpoint_def loadCheckpoint_def world0_def chunksToProcess_def
        chunkSizeOf_def smallChunks_def sample_chunks_small)
  have room: "completedChunks (initialProgress (loadedCheckpoint ''essay.txt'' smallChunks world0)
        (length (chunkText sampleDocument (chunkSizeOf smallChunks) OVERLAP_SIZE)) world0)
      + length (chunksToProcess (loadedCheckpoint ''essay.txt'' smallChunks world0)
          (length (chunkText sampleDocument (chunkSizeOf smallChunks) OVERLAP_SIZE)))
      \<le> length (chunkText sampleDocument (chunkSizeOf smallChunks) OVERLAP_SIZE)"
    unfolding n
    by (simp add: loadedCheckpoint_def loadCheckpoint_def world0_def initialProgress_def
        chunkSizeOf_def smallChunks_def sample_chunks_small)
  from extractLargeDocument_ends[OF doc refl refl refl room, of flakyGen sampleSummarizer]
  have five: "length (savedCheckpoints (eventsSince world0
        (snd (extractLargeDocument flakyGen sampleSummarizer ''essay.txt'' smallChunks world0)))) = 5"
    unfolding n by auto
  from saved_checkpoints_invariant[of world0 flakyGen sampleSummarizer "''essay.txt''" smallChunks] fits five
  show ?thesis
    by (simp add: list_all_iff)
qed

subsection \<open>Failed chunks and the final result\<close>

text \<open>
  Claim C8: \<open>reduceResults\<close> aggregates the successful results only. Overwriting the
  summary of a failed result changes no field of the reduction, and the final result of
  \<open>extractLargeDocument\<close> is the same whatever the fallback summarisation returns.
\<close>

theorem failed_chunks_never_aggregated:
  "reduceResults rs = reduceResults (filter success rs)
   \<and> (\<not> success r \<longrightarrow>
        reduceResults (rs1 @ r\<lparr> result := (result r)\<lparr> summary := t \<rparr> \<rparr> # rs2)
          = reduceResults (rs1 @ r # rs2))
   \<and> fst (extractLargeDocument gen summ fp options w)
       = fst (extractLargeDocument gen summ' fp options w)"
proof -
  have a: "reduceResults rs = reduceResults (filter success rs)"
    by (simp add: reduceResults_filter)
  have b: "reduceResults (rs1 @ r\<lparr> result := (result r)\<lparr> summary := t \<rparr> \<rparr> # rs2)
      = reduceResults (rs1 @ r # rs2)" if "\<not> success r"
    using that by (simp add: reduceResults_def)
  have c: "fst (extractLargeDocument gen summ fp options w)
      = fst (extractLargeDocument gen summ' fp options w)"
  proof (cases "files w fp")
    case None
    then show ?thesis by (simp add: extractLargeDocument_def)
  next
    case (Some document)
    let ?chunks = "chunkText document (chunkSizeOf options) OVERLAP_SIZE"
    let ?p0 = "initialProgress (loadedCheckpoint fp options w) (length ?chunks) w"
    let ?todo = "chunksToProcess (loadedCheckpoint fp options w) (length ?chunks)"
    let ?run = "\<lambda>sm. processAll gen sm fp ?chunks (useStreamingOf options) ?todo (?p0, w)"
    have e: "fst (extractLargeDocument gen sm fp options w)
        = (case fst (?run sm) of
             Inl e \<Rightarrow> Inl e
           | Inr p' \<Rightarrow>
               (case displayProgress p' of
                  Some e \<Rightarrow> Inl e
                | None \<Rightarrow> Inr (reduceResults (chunkResults p'))))" for sm
      using Some
      by (simp add: extractLargeDocument_def Let_def split: prod.splits sum.splits option.splits)
    have "alike ?p0 ?p0" by (simp add: alike_def)
    from processAll_alike[OF this, of gen summ fp ?chunks "useStreamingOf options" ?todo w summ' w]
    show ?thesis
    proof
      assume "\<exists>e. fst (?run summ) = Inl e \<and> fst (?run summ') = Inl e"
      then show ?thesis unfolding e by auto
    next
      assume "\<exists>p' q'. fst (?run summ) = Inr p' \<and> fst (?run summ') = Inr q' \<and> alike p' q'"
      then obtain p' q' where r: "fst (?run summ) = Inr p'" "fst (?run summ') = Inr q'"
        and al: "alike p' q'" by blast
      have "displayProgress p' = displayProgress q'"
        using al by (intro displayProgress_cong) (simp_all add: alike_def)
      moreover have "reduceResults (chunkResults p') = reduceResults (chunkResults q')"
        using al by (intro reduceResults_successes) (simp add: alike_def)
      ultimately show ?thesis unfolding e r by (simp split: option.splits)
    qed
  qed
  from a b c show ?thesis by blast
qed

text \<open>The theorem at a failed and a successful result, and at two summarisers.\<close>

theorem failed_chunks_never_aggregated_witness:
  "\<not> success failed0
   \<and> reduceResults ([succeeded 1] @ failed0\<lparr> result := (result failed0)\<lparr> summary := ''other'' \<rparr> \<rparr> # [])
       = reduceResults ([succeeded 1] @ failed0 # [])
   \<and> reduceResults [failed0, succeeded 1] = reduceResults (filter success [failed0, succeeded 1])
   \<and> fst (extractLargeDocument flakyGen sampleSummarizer ''essay.txt'' smallChunks world0)
       = fst (extractLargeDocument flakyGen brokenSummarizer ''essay.txt'' smallChunks world0)"
proof -
  have f: "\<not> success failed0" by (simp add: failed0_def)
  from failed_chunks_never_aggregated[of "[failed0, succeeded 1]" failed0 "[succeeded 1]" "''other''" "[]"
      flakyGen sampleSummarizer "''essay.txt''" smallChunks world0 brokenSummarizer] f
  show ?thesis by blast
qed

end
